theory Spec2Isabelle
  imports Complex_Main
begin

section \<open>Data model of \<open>reddit_mastermind.py\<close>\<close>

text \<open>
  The pydantic classes of the source become records. Python \<open>float\<close> scores are finite
  (pydantic rejects a score outside \<open>[0, 10]\<close>, a NaN included) and are only ever compared
  with the exactly representable constants \<open>7.5\<close> and \<open>0.5\<close>, so they are modelled as
  \<open>real\<close>. Python \<open>int\<close> is \<open>int\<close>. Field names that occur in two classes carry a prefix in
  all but one of them.
\<close>

record persona =
  username :: string
  name :: string
  background :: string
  style :: string
  expertise :: string
  quirks :: "string list"
  posting_patterns :: string

text \<open>
  \<open>timestamp\<close> holds the \<open>datetime\<close> value whose rendering
  \<open>strftime("%Y-%m-%d %H:%M")\<close> the source stores, counted in minutes since
  0001-01-01 00:00. All datetimes of the source are whole minutes (they come from
  \<open>strptime\<close> with the same format, plus an integral number of minutes), where the
  rendering is one-to-one.
\<close>

record reddit_post =
  post_id :: string
  subreddit :: string
  title :: string
  body :: string
  author_username :: string
  timestamp :: int
  keyword_ids :: "string list"

record reddit_comment =
  comment_id :: string
  c_post_id :: string
  parent_comment_id :: "string option"
  comment_text :: string
  c_username :: string
  c_timestamp :: int
  delay_minutes :: int

record post_plan =
  pp_subreddit :: string
  target_keyword :: string
  primary_persona :: string
  commenting_personas :: "string list"
  post_angle :: string
  engagement_strategy :: string
  scheduled_date :: string
  scheduled_time :: string

record quality_score_t =
  naturalness :: real
  authenticity :: real
  engagement_potential :: real
  subtlety :: real
  overall_score :: real
  issues :: "string list"
  suggestions :: "string list"

record week_plan =
  wp_week_number :: int
  start_date :: string
  wp_posts :: "post_plan list"
  wp_quality_score :: "real option"

record generated_content_t =
  posts :: "reddit_post list"
  comments :: "reddit_comment list"
  quality_assessment :: quality_score_t

text \<open>
  The run state is a Python \<open>dict\<close>. The keys that \<open>generate_reddit_calendar\<close> puts
  into the initial dict are plain fields; a key that only a stage adds is an
  \<open>option\<close> field, \<open>None\<close> meaning that the key is absent, so that \<open>state['k']\<close> on
  it raises \<open>KeyError\<close>.
\<close>

record reddit_state =
  company_info :: string
  personas :: "persona list"
  subreddits :: "string list"
  target_queries :: "string list"
  posts_per_week :: int
  week_number :: int
  strategic_plan :: "week_plan option"
  plan_critique :: "string option"
  generated_content :: "generated_content_t option"
  content_critique :: "string option"
  quality_score :: "quality_score_t option"
  refinement_iteration :: int
  max_iterations :: int
  final_content :: "generated_content_t option"

datatype error =
    KeyError string
  | GenerationError string
  | ValueError string
  | OverflowError
  | GraphRecursionError

datatype node = Planner | PlanCritic | RefinePlan | GenerateContent | FinalCritic | END_node

section \<open>The external capabilities\<close>

text \<open>
  Every call of a chain (\<open>prompt | llm | JsonOutputParser()\<close>) sits in a \<open>try\<close> block
  together with the construction of the pydantic object from its result, and the handler
  catches \<open>Exception\<close>. What such a block computes is therefore either the validated
  object or a failure, whatever its cause (transport, JSON parsing, a missing key, schema
  validation): \<open>Inl e\<close> is the failure. The planner and the final critic call their
  chain once; the k-th call of the plan critic, and the calls for plan item \<open>i\<close> and
  its \<open>j\<close>-th commenter, have answers of their own. Building the client succeeds,
  and so does building a template from one of the prompt constants of the source, whose
  JSON braces are doubled. The prompt of the refiner is not a constant: see
  \<open>refine_template\<close>.

  A comment answer holds \<open>comment_text\<close> and what \<open>get('delay_minutes', 30)\<close> finds:
  \<open>None\<close> when the key is absent, \<open>Some d\<close> for an integral number. Any other value
  makes \<open>timedelta\<close> or the validation of \<open>RedditComment\<close> raise inside the block,
  and is a failure.

  \<open>random_random e i j\<close> is the number that \<open>random.random()\<close> returns when it is
  called for the \<open>j\<close>-th commenter of item \<open>i\<close>. \<open>strptime e\<close> is
  \<open>datetime.strptime\<close> with the format \<open>"%Y-%m-%d %H:%M"\<close>: the minutes since
  0001-01-01 00:00 of the datetime it reads, \<open>None\<close> where it raises \<open>ValueError\<close>.
\<close>

record post_result =
  pr_title :: string
  pr_body :: string

record comment_result =
  cr_comment_text :: string
  cr_delay_minutes :: "int option"

record env =
  planner_llm :: "error + week_plan"
  critic_llm :: "nat \<Rightarrow> error + (quality_score_t \<times> string)"
  brace_error :: "string list \<Rightarrow> string list \<Rightarrow> string \<Rightarrow> bool"
  post_llm :: "nat \<Rightarrow> error + post_result"
  comment_llm :: "nat \<Rightarrow> nat \<Rightarrow> error + comment_result"
  random_random :: "nat \<Rightarrow> nat \<Rightarrow> real"
  strptime :: "string \<Rightarrow> int option"
  final_llm :: "error + (quality_score_t \<times> string)"

section \<open>The stages\<close>

definition planner_agent :: "env \<Rightarrow> reddit_state \<Rightarrow> error + reddit_state" where
  \<comment> \<open>The handler returns the state; the \<open>raise\<close> that follows the \<open>return\<close> is never reached.\<close>
  "planner_agent e s =
     (case planner_llm e of
        Inr week_plan \<Rightarrow> Inr (s\<lparr>strategic_plan := Some week_plan\<rparr>)
      | Inl ex \<Rightarrow> Inr s)"

definition plan_critic_agent :: "env \<Rightarrow> nat \<Rightarrow> reddit_state \<Rightarrow> error + reddit_state" where
  \<comment> \<open>\<open>state['strategic_plan']\<close> is read before the \<open>try\<close>.\<close>
  "plan_critic_agent e k s =
     (case strategic_plan s of
        None \<Rightarrow> Inl (KeyError ''strategic_plan'')
      | Some plan \<Rightarrow>
          (case critic_llm e k of
             Inr (quality, raw) \<Rightarrow>
               Inr (s\<lparr>quality_score := Some quality, plan_critique := Some raw\<rparr>)
           | Inl ex \<Rightarrow> Inr s))"

definition should_refine_plan :: "reddit_state \<Rightarrow> error + node" where
  "should_refine_plan s =
     (case quality_score s of
        None \<Rightarrow> Inl (KeyError ''quality_score'')
      | Some q \<Rightarrow>
          if overall_score q \<ge> 7.5 then Inr GenerateContent
          else if refinement_iteration s \<ge> max_iterations s then Inr GenerateContent
          else Inr RefinePlan)"

text \<open>
  \<open>refine_plan_agent\<close> pastes the JSON of the issues, of the suggestions and of the plan
  into an f-string and makes a template of the text, so that
  \<open>ChatPromptTemplate.from_template\<close> reads every brace of that JSON as template syntax.
  The JSON of a plan is an object: its outer braces are a replacement field, named by
  the text up to the first colon, and the object of a post inside it is a nested field,
  which \<open>from_template\<close> refuses with \<open>ValueError\<close>. For a plan without posts the
  template is built, with that field as its input variable, unless a brace in a string
  of the issues, of the suggestions or in the start date is one that the template
  syntax refuses (\<open>brace_error\<close>, a parameter). \<open>chain.invoke({})\<close> then gives the
  template no value for its input variable and raises \<open>KeyError\<close> before the model is
  called.
\<close>

definition refine_template :: "env \<Rightarrow> quality_score_t \<Rightarrow> week_plan \<Rightarrow> error option" where
  \<comment> \<open>The exception of \<open>ChatPromptTemplate.from_template(refine_prompt)\<close>, if it raises.\<close>
  "refine_template e q plan =
     (if wp_posts plan \<noteq> [] \<or> brace_error e (issues q) (suggestions q) (start_date plan)
      then Some (ValueError ''refine_prompt'')
      else None)"

definition invoke_empty_input :: "error + week_plan" where
  \<comment> \<open>\<open>chain.invoke({})\<close> on the refiner's template, followed by \<open>WeekPlan(**result)\<close>.\<close>
  "invoke_empty_input = Inl (KeyError ''week_number'')"

definition refine_plan_agent :: "env \<Rightarrow> reddit_state \<Rightarrow> error + reddit_state" where
  \<comment> \<open>The prompt reads \<open>state['quality_score']\<close>, then \<open>state['strategic_plan']\<close>; it is
      made a template before the \<open>try\<close>, so the exception of that leaves the function.\<close>
  "refine_plan_agent e s =
     (case quality_score s of
        None \<Rightarrow> Inl (KeyError ''quality_score'')
      | Some q \<Rightarrow>
          (case strategic_plan s of
             None \<Rightarrow> Inl (KeyError ''strategic_plan'')
           | Some plan \<Rightarrow>
               (case refine_template e q plan of
                  Some ex \<Rightarrow> Inl ex
                | None \<Rightarrow>
                    (case invoke_empty_input of
                       Inr week_plan \<Rightarrow>
                         Inr (s\<lparr>strategic_plan := Some week_plan,
                                 refinement_iteration := refinement_iteration s + 1\<rparr>)
                     | Inl ex \<Rightarrow>
                         Inr (s\<lparr>refinement_iteration := refinement_iteration s + 1\<rparr>)))))"

section \<open>Content generation\<close>

text \<open>\<open>f"P{i+1}"\<close> and \<open>f"C{len(comments)+1}"\<close> print a positive \<open>int\<close> in decimal.\<close>

definition digit_char :: "nat \<Rightarrow> char" where
  "digit_char d = ''0123456789'' ! d"

fun str_nat :: "nat \<Rightarrow> string" where
  "str_nat n = (if n < 10 then [digit_char n] else str_nat (n div 10) @ [digit_char (n mod 10)])"

declare str_nat.simps [simp del]

definition personas_dict :: "persona list \<Rightarrow> (string \<rightharpoonup> persona)" where
  \<comment> \<open>\<open>{p.username: p for p in state['personas']}\<close>: a later persona replaces an earlier
      one of the same username.\<close>
  "personas_dict ps = foldl (\<lambda>m p. m(username p \<mapsto> p)) Map.empty ps"

text \<open>
  \<open>datetime\<close> ranges over the years 1 to 9999: \<open>post_time + timedelta(minutes=d)\<close>
  raises \<open>OverflowError\<close> when the sum leaves that range (or when \<open>d\<close> is too large
  for a \<open>timedelta\<close>, in which case the sum leaves the range as well).
\<close>

definition max_minute :: int where
  "max_minute = 3652059 * 1440 - 1"

definition add_minutes :: "int \<Rightarrow> int \<Rightarrow> int option" where
  "add_minutes t d = (if 0 \<le> t + d \<and> t + d \<le> max_minute then Some (t + d) else None)"

definition same_post :: "reddit_post \<Rightarrow> reddit_comment list \<Rightarrow> reddit_comment list" where
  "same_post post cs = filter (\<lambda>c. c_post_id c = post_id post) cs"

definition choose_parent ::
  "env \<Rightarrow> nat \<Rightarrow> nat \<Rightarrow> reddit_post \<Rightarrow> reddit_comment list \<Rightarrow> reddit_comment option" where
  "choose_parent e i j post cs =
     (if j > 0 \<and> length cs > 0 then
        (if length (same_post post cs) > 0 then
           (if random_random e i j > 0.5 then Some (last (same_post post cs)) else None)
         else None)
      else None)"

definition make_comment ::
  "env \<Rightarrow> nat \<Rightarrow> nat \<Rightarrow> persona \<Rightarrow> reddit_post \<Rightarrow> int \<Rightarrow> reddit_comment option \<Rightarrow>
   reddit_comment list \<Rightarrow> error + reddit_comment" where
  \<comment> \<open>The body of the inner \<open>try\<close>: the comment to append, or the exception.\<close>
  "make_comment e i j commenter post post_time parent cs =
     (case comment_llm e i j of
        Inl ex \<Rightarrow> Inl ex
      | Inr comment_result \<Rightarrow>
          (let d = (case cr_delay_minutes comment_result of None \<Rightarrow> 30 | Some d \<Rightarrow> d) in
           case add_minutes post_time d of
             None \<Rightarrow> Inl OverflowError
           | Some comment_time \<Rightarrow>
               Inr \<lparr>comment_id = ''C'' @ str_nat (length cs + 1),
                    c_post_id = post_id post,
                    parent_comment_id = map_option comment_id parent,
                    comment_text = cr_comment_text comment_result,
                    c_username = username commenter,
                    c_timestamp = comment_time,
                    delay_minutes = d\<rparr>))"

text \<open>
  The loop over \<open>enumerate(post_plan.commenting_personas)\<close>. The list \<open>comments\<close> is
  mutated in place, so what was appended stays when \<open>personas_dict[commenter_username]\<close>,
  which is outside the inner \<open>try\<close>, raises and leaves the loop: the result is the
  list together with that exception, if any.
\<close>

fun comment_loop ::
  "env \<Rightarrow> (string \<rightharpoonup> persona) \<Rightarrow> nat \<Rightarrow> reddit_post \<Rightarrow> int \<Rightarrow> nat \<Rightarrow> string list \<Rightarrow>
   reddit_comment list \<Rightarrow> reddit_comment list \<times> error option" where
  "comment_loop e pd i post post_time j [] cs = (cs, None)"
| "comment_loop e pd i post post_time j (u # us) cs =
     (case pd u of
        None \<Rightarrow> (cs, Some (KeyError u))
      | Some commenter \<Rightarrow>
          (case make_comment e i j commenter post post_time (choose_parent e i j post cs) cs of
             Inl ex \<Rightarrow> comment_loop e pd i post post_time (Suc j) us cs
           | Inr comment \<Rightarrow> comment_loop e pd i post post_time (Suc j) us (cs @ [comment])))"

definition make_post ::
  "env \<Rightarrow> nat \<Rightarrow> persona \<Rightarrow> post_plan \<Rightarrow> error + (reddit_post \<times> int)" where
  \<comment> \<open>The outer \<open>try\<close> up to \<open>posts.append(post)\<close>: the post and \<open>post_time\<close>, or the
      exception.\<close>
  "make_post e i primary pp =
     (case post_llm e i of
        Inl ex \<Rightarrow> Inl ex
      | Inr post_result \<Rightarrow>
          (case strptime e (scheduled_date pp @ '' '' @ scheduled_time pp) of
             None \<Rightarrow> Inl (ValueError (scheduled_date pp @ '' '' @ scheduled_time pp))
           | Some post_time \<Rightarrow>
               Inr (\<lparr>post_id = ''P'' @ str_nat (i + 1),
                     subreddit = pp_subreddit pp,
                     title = pr_title post_result,
                     body = pr_body post_result,
                     author_username = username primary,
                     timestamp = post_time,
                     keyword_ids = [target_keyword pp]\<rparr>, post_time)))"

text \<open>
  The loop over \<open>enumerate(plan.posts)\<close>. \<open>personas_dict[post_plan.primary_persona]\<close> is
  outside the \<open>try\<close>: its \<open>KeyError\<close> leaves the function. The outer handler
  catches whatever the comment loop raises and goes on with the next item.
\<close>

fun post_loop ::
  "env \<Rightarrow> (string \<rightharpoonup> persona) \<Rightarrow> nat \<Rightarrow> post_plan list \<Rightarrow> reddit_post list \<Rightarrow>
   reddit_comment list \<Rightarrow> error + (reddit_post list \<times> reddit_comment list)" where
  "post_loop e pd i [] ps cs = Inr (ps, cs)"
| "post_loop e pd i (pp # rest) ps cs =
     (case pd (primary_persona pp) of
        None \<Rightarrow> Inl (KeyError (primary_persona pp))
      | Some primary \<Rightarrow>
          (case make_post e i primary pp of
             Inl ex \<Rightarrow> post_loop e pd (Suc i) rest ps cs
           | Inr (post, post_time) \<Rightarrow>
               post_loop e pd (Suc i) rest (ps @ [post])
                 (fst (comment_loop e pd i post post_time 0 (commenting_personas pp) cs))))"

definition zero_score :: quality_score_t where
  "zero_score = \<lparr>naturalness = 0, authenticity = 0, engagement_potential = 0, subtlety = 0,
                 overall_score = 0, issues = [], suggestions = []\<rparr>"

definition content_generator_agent :: "env \<Rightarrow> reddit_state \<Rightarrow> error + reddit_state" where
  "content_generator_agent e s =
     (case strategic_plan s of
        None \<Rightarrow> Inl (KeyError ''strategic_plan'')
      | Some plan \<Rightarrow>
          (case post_loop e (personas_dict (personas s)) 0 (wp_posts plan) [] [] of
             Inl ex \<Rightarrow> Inl ex
           | Inr (ps, cs) \<Rightarrow>
               Inr (s\<lparr>generated_content :=
                        Some \<lparr>posts = ps, comments = cs, quality_assessment = zero_score\<rparr>\<rparr>)))"

definition final_critic_agent :: "env \<Rightarrow> reddit_state \<Rightarrow> error + reddit_state" where
  \<comment> \<open>\<open>content.quality_assessment = quality\<close> writes into the object that
      \<open>state['generated_content']\<close> holds too.\<close>
  "final_critic_agent e s =
     (case generated_content s of
        None \<Rightarrow> Inl (KeyError ''generated_content'')
      | Some content \<Rightarrow>
          (case final_llm e of
             Inr (quality, raw) \<Rightarrow>
               (let content' = content\<lparr>quality_assessment := quality\<rparr> in
                Inr (s\<lparr>generated_content := Some content',
                        final_content := Some content',
                        content_critique := Some raw\<rparr>))
           | Inl ex \<Rightarrow> Inr (s\<lparr>final_content := Some content\<rparr>)))"

section \<open>The workflow graph\<close>

definition run_node :: "env \<Rightarrow> node \<Rightarrow> nat \<Rightarrow> nat \<Rightarrow> reddit_state \<Rightarrow> error + reddit_state" where
  \<comment> \<open>\<open>kc\<close> and \<open>kr\<close> count the calls of the plan critic and of the refiner so far;
      \<open>kc\<close> selects the answer of the plan critic.\<close>
  "run_node e n kc kr s =
     (case n of
        Planner \<Rightarrow> planner_agent e s
      | PlanCritic \<Rightarrow> plan_critic_agent e kc s
      | RefinePlan \<Rightarrow> refine_plan_agent e s
      | GenerateContent \<Rightarrow> content_generator_agent e s
      | FinalCritic \<Rightarrow> final_critic_agent e s
      | END_node \<Rightarrow> Inr s)"

definition next_node :: "node \<Rightarrow> reddit_state \<Rightarrow> error + node" where
  \<comment> \<open>The edges of \<open>build_workflow\<close>.\<close>
  "next_node n s =
     (case n of
        Planner \<Rightarrow> Inr PlanCritic
      | PlanCritic \<Rightarrow> should_refine_plan s
      | RefinePlan \<Rightarrow> Inr PlanCritic
      | GenerateContent \<Rightarrow> Inr FinalCritic
      | FinalCritic \<Rightarrow> Inr END_node
      | END_node \<Rightarrow> Inr END_node)"

text \<open>
  \<open>app.invoke\<close> runs the node it is at, puts the dict the node returns in the place
  of the state, and follows the edge, until it reaches \<open>END\<close>; it gives up with
  \<open>GraphRecursionError\<close> after \<open>recursion_limit\<close> steps (\<open>fuel\<close>; 25 unless
  configured, and the source configures nothing). The first component of the result
  is the trace: each node that was called, with the state it was called on.
\<close>

fun invoke ::
  "env \<Rightarrow> nat \<Rightarrow> node \<Rightarrow> nat \<Rightarrow> nat \<Rightarrow> reddit_state \<Rightarrow>
   (node \<times> reddit_state) list \<times> (error + reddit_state)" where
  "invoke e fuel END_node kc kr s = ([], Inr s)"
| "invoke e 0 n kc kr s = ([], Inl GraphRecursionError)"
| "invoke e (Suc fuel) n kc kr s =
     (case run_node e n kc kr s of
        Inl ex \<Rightarrow> ([(n, s)], Inl ex)
      | Inr s' \<Rightarrow>
          (case next_node n s' of
             Inl ex \<Rightarrow> ([(n, s)], Inl ex)
           | Inr n' \<Rightarrow>
               (let (tr, r) = invoke e fuel n'
                                (if n = PlanCritic then Suc kc else kc)
                                (if n = RefinePlan then Suc kr else kr) s'
                in ((n, s) # tr, r))))"

definition initial_state ::
  "string \<Rightarrow> persona list \<Rightarrow> string list \<Rightarrow> string list \<Rightarrow> int \<Rightarrow> int \<Rightarrow> reddit_state" where
  "initial_state ci ps srs tqs ppw wn =
     \<lparr>company_info = ci, personas = ps, subreddits = srs, target_queries = tqs,
      posts_per_week = ppw, week_number = wn,
      strategic_plan = None, plan_critique = None, generated_content = None,
      content_critique = None, quality_score = None,
      refinement_iteration = 0, max_iterations = 2, final_content = None\<rparr>"

definition recursion_limit :: nat where
  "recursion_limit = 25"

definition generate_reddit_calendar ::
  "env \<Rightarrow> string \<Rightarrow> persona list \<Rightarrow> string list \<Rightarrow> string list \<Rightarrow> int \<Rightarrow> int \<Rightarrow>
   error + generated_content_t" where
  \<comment> \<open>The handler of \<open>app.invoke\<close> re-raises the exception as it is.\<close>
  "generate_reddit_calendar e ci ps srs tqs ppw wn =
     (case snd (invoke e recursion_limit Planner 0 0 (initial_state ci ps srs tqs ppw wn)) of
        Inl ex \<Rightarrow> Inl ex
      | Inr final_state \<Rightarrow>
          (case final_content final_state of
             None \<Rightarrow> Inl (KeyError ''final_content'')
           | Some content \<Rightarrow> Inr content))"

section \<open>Observations on a run\<close>

definition iteration_trace :: "(node \<times> reddit_state) list \<Rightarrow> int list" where
  \<comment> \<open>The value of \<open>refinement_iteration\<close> at each call of a node, in order.\<close>
  "iteration_trace tr = map (\<lambda>x. refinement_iteration (snd x)) tr"

definition refine_calls :: "(node \<times> reddit_state) list \<Rightarrow> nat" where
  "refine_calls tr = length (filter (\<lambda>x. fst x = RefinePlan) tr)"

definition steps_needed :: "node \<Rightarrow> reddit_state \<Rightarrow> nat" where
  \<comment> \<open>A bound on the number of node calls from node \<open>n\<close> in state \<open>s\<close> to \<open>END\<close>.\<close>
  "steps_needed n s =
     (let b = nat (max_iterations s - refinement_iteration s) in
      case n of
        Planner \<Rightarrow> 2 * b + 4
      | PlanCritic \<Rightarrow> 2 * b + 3
      | RefinePlan \<Rightarrow> 2 * b + 2
      | GenerateContent \<Rightarrow> 2
      | FinalCritic \<Rightarrow> 1
      | END_node \<Rightarrow> 0)"

section \<open>A sample request\<close>

text \<open>
  The personas of the example at the end of the source, a plan of three items for them,
  and answers of the external capabilities. \<open>sample_strptime\<close> is \<open>datetime.strptime\<close>
  with the format \<open>"%Y-%m-%d %H:%M"\<close> on the three date strings of the plan.
\<close>

definition riley :: persona where
  "riley = \<lparr>username = ''riley_ops'', name = ''Riley Hart'', background = ''Head of operations'',
            style = ''Professional'', expertise = ''Operations'', quirks = [''Miro boards''],
            posting_patterns = []\<rparr>"

definition jordan :: persona where
  "jordan = \<lparr>username = ''jordan_consults'', name = ''Jordan Brooks'',
             background = ''Independent consultant'', style = ''Thoughtful'',
             expertise = ''Strategy'', quirks = [], posting_patterns = []\<rparr>"

definition emily :: persona where
  "emily = \<lparr>username = ''emily_econ'', name = ''Emily Chen'', background = ''Economics major'',
            style = ''Student'', expertise = ''Research'', quirks = [''library quiet floor''],
            posting_patterns = []\<rparr>"

definition sample_item :: "string \<Rightarrow> string \<Rightarrow> string list \<Rightarrow> string \<Rightarrow> string \<Rightarrow> post_plan" where
  "sample_item sr primary commenters d t =
     \<lparr>pp_subreddit = sr, target_keyword = ''pitch deck help'', primary_persona = primary,
      commenting_personas = commenters, post_angle = ''late night slides'',
      engagement_strategy = ''mixed'', scheduled_date = d, scheduled_time = t\<rparr>"

definition sample_plan :: week_plan where
  "sample_plan =
     \<lparr>wp_week_number = 1, start_date = ''2025-01-06'',
      wp_posts =
        [sample_item ''r/startups'' ''riley_ops'' [''jordan_consults'', ''emily_econ'']
           ''2025-01-06'' ''09:15'',
         sample_item ''r/consulting'' ''jordan_consults'' [''riley_ops''] ''2025-01-08'' ''14:30'',
         sample_item ''r/productivity'' ''emily_econ'' [''riley_ops'', ''jordan_consults'']
           ''2025-01-10'' ''19:45''],
      wp_quality_score = None\<rparr>"

definition sample_strptime :: "string \<Rightarrow> int option" where
  "sample_strptime x =
     (if x = ''2025-01-06 09:15'' then Some 1064529195
      else if x = ''2025-01-08 14:30'' then Some 1064532390
      else if x = ''2025-01-10 19:45'' then Some 1064535585
      else None)"

definition sample_score :: "real \<Rightarrow> quality_score_t" where
  "sample_score x = \<lparr>naturalness = x, authenticity = x, engagement_potential = x, subtlety = x,
                     overall_score = x, issues = [''too uniform''], suggestions = [''vary'']\<rparr>"

definition sample_env :: env where
  \<comment> \<open>The first plan scores 6, every later one 8; every call succeeds; the answer for the
      first commenter of a post has a delay of 45 minutes, the others have none; no
      string of a score or a plan has a brace.\<close>
  "sample_env =
     \<lparr>planner_llm = Inr sample_plan,
      critic_llm = (\<lambda>k. Inr (sample_score (if k = 0 then 6 else 8), ''critique'')),
      brace_error = (\<lambda>iss sug d. False),
      post_llm = (\<lambda>i. Inr \<lparr>pr_title = ''title'', pr_body = ''body''\<rparr>),
      comment_llm = (\<lambda>i j. Inr \<lparr>cr_comment_text = ''same here'',
                                 cr_delay_minutes = (if j = 0 then Some 45 else None)\<rparr>),
      random_random = (\<lambda>i j. 0.75),
      strptime = sample_strptime,
      final_llm = Inr (sample_score 9, ''final'')\<rparr>"

definition sample_state :: reddit_state where
  "sample_state =
     initial_state ''Slideforge'' [riley, jordan, emily] [''r/startups''] [''pitch deck help''] 3 1"

definition sample_run :: "env \<Rightarrow> error + generated_content_t" where
  "sample_run e =
     generate_reddit_calendar e ''Slideforge'' [riley, jordan, emily] [''r/startups'']
       [''pitch deck help''] 3 1"

definition high_first_env :: env where
  \<comment> \<open>As \<open>sample_env\<close>, but the first plan already scores 8.\<close>
  "high_first_env = sample_env\<lparr>critic_llm := (\<lambda>k. Inr (sample_score 8, ''critique''))\<rparr>"

definition scored_state :: "real \<Rightarrow> int \<Rightarrow> reddit_state" where
  \<comment> \<open>The sample state at the gate, with overall score \<open>x\<close> after \<open>k\<close> refinements.\<close>
  "scored_state x k =
     sample_state\<lparr>quality_score := Some (sample_score x), refinement_iteration := k\<rparr>"

definition gate_state :: reddit_state where
  \<comment> \<open>The sample state after the planner and the plan critic of \<open>sample_env\<close>.\<close>
  "gate_state =
     sample_state\<lparr>strategic_plan := Some sample_plan, plan_critique := Some ''critique'',
                  quality_score := Some (sample_score 6)\<rparr>"

definition failing_planner_env :: env where
  \<comment> \<open>As \<open>sample_env\<close>, but the call of the planner fails.\<close>
  "failing_planner_env = sample_env\<lparr>planner_llm := Inl (GenerationError ''rate limit'')\<rparr>"

definition failing_critic_env :: env where
  \<comment> \<open>As \<open>sample_env\<close>, but every call of the plan critic fails.\<close>
  "failing_critic_env = sample_env\<lparr>critic_llm := (\<lambda>k. Inl (GenerationError ''timeout''))\<rparr>"

definition ghost_plan :: week_plan where
  \<comment> \<open>A plan whose second item names a primary persona that is not in the roster.\<close>
  "ghost_plan =
     sample_plan\<lparr>wp_posts :=
       [sample_item ''r/startups'' ''riley_ops'' [''jordan_consults''] ''2025-01-06'' ''09:15'',
        sample_item ''r/consulting'' ''ghost_user'' [''riley_ops''] ''2025-01-08'' ''14:30'',
        sample_item ''r/productivity'' ''emily_econ'' [''riley_ops''] ''2025-01-10'' ''19:45'']\<rparr>"

definition ghost_state :: reddit_state where
  "ghost_state = sample_state\<lparr>strategic_plan := Some ghost_plan,
                               quality_score := Some (sample_score 8)\<rparr>"

definition parents_precede :: "reddit_comment list \<Rightarrow> bool" where
  \<comment> \<open>Every parent identifier is that of an earlier comment on the same post.\<close>
  "parents_precede cs \<longleftrightarrow>
     (\<forall>n < length cs. \<forall>pid. parent_comment_id (cs ! n) = Some pid \<longrightarrow>
        (\<exists>m < n. comment_id (cs ! m) = pid \<and> c_post_id (cs ! m) = c_post_id (cs ! n)))"

definition ids_sequential :: "reddit_comment list \<Rightarrow> bool" where
  "ids_sequential cs \<longleftrightarrow> (\<forall>n < length cs. comment_id (cs ! n) = ''C'' @ str_nat (n + 1))"

definition approved_state :: reddit_state where
  \<comment> \<open>The sample state when the gate sends it to content generation.\<close>
  "approved_state =
     sample_state\<lparr>strategic_plan := Some sample_plan, quality_score := Some (sample_score 8)\<rparr>"

definition sample_post :: "string \<Rightarrow> string \<Rightarrow> string \<Rightarrow> int \<Rightarrow> reddit_post" where
  "sample_post pid sr author t =
     \<lparr>post_id = pid, subreddit = sr, title = ''title'', body = ''body'',
      author_username = author, timestamp = t, keyword_ids = [''pitch deck help'']\<rparr>"

definition sample_comment ::
  "string \<Rightarrow> string \<Rightarrow> string option \<Rightarrow> string \<Rightarrow> int \<Rightarrow> int \<Rightarrow> reddit_comment" where
  "sample_comment cid pid parent author t d =
     \<lparr>comment_id = cid, c_post_id = pid, parent_comment_id = parent,
      comment_text = ''same here'', c_username = author, c_timestamp = t, delay_minutes = d\<rparr>"

definition sample_content :: generated_content_t where
  \<comment> \<open>What content generation makes of the sample plan with the sample answers.\<close>
  "sample_content =
     \<lparr>posts =
        [sample_post ''P1'' ''r/startups'' ''riley_ops'' 1064529195,
         sample_post ''P2'' ''r/consulting'' ''jordan_consults'' 1064532390,
         sample_post ''P3'' ''r/productivity'' ''emily_econ'' 1064535585],
      comments =
        [sample_comment ''C1'' ''P1'' None ''jordan_consults'' 1064529240 45,
         sample_comment ''C2'' ''P1'' (Some ''C1'') ''emily_econ'' 1064529225 30,
         sample_comment ''C3'' ''P2'' None ''riley_ops'' 1064532435 45,
         sample_comment ''C4'' ''P3'' None ''riley_ops'' 1064535630 45,
         sample_comment ''C5'' ''P3'' (Some ''C4'') ''jordan_consults'' 1064535615 30],
      quality_assessment = zero_score\<rparr>"



definition ghost_env :: env where
  \<comment> \<open>The planner returns \<open>ghost_plan\<close>, which the plan critic scores 8.\<close>
  "ghost_env = high_first_env\<lparr>planner_llm := Inr ghost_plan\<rparr>"

definition failing_final_env :: env where
  \<comment> \<open>As \<open>high_first_env\<close>, but the call of the final critic fails.\<close>
  "failing_final_env = high_first_env\<lparr>final_llm := Inl (GenerationError ''timeout'')\<rparr>"

definition post_generated :: "env \<Rightarrow> nat \<Rightarrow> post_plan \<Rightarrow> bool" where
  \<comment> \<open>For item \<open>k\<close> the outer \<open>try\<close> gets as far as \<open>posts.append(post)\<close>: the answer
      comes and the scheduled date and time parse.\<close>
  "post_generated e k pp \<longleftrightarrow>
     \<not> isl (post_llm e k) \<and> strptime e (scheduled_date pp @ '' '' @ scheduled_time pp) \<noteq> None"

definition comment_generated :: "env \<Rightarrow> nat \<Rightarrow> post_plan \<Rightarrow> nat \<Rightarrow> bool" where
  \<comment> \<open>For commenter \<open>j\<close> of item \<open>k\<close> the inner \<open>try\<close> gets as far as
      \<open>comments.append(comment)\<close>: the answer comes and its delay keeps the time in range.\<close>
  "comment_generated e k pp j \<longleftrightarrow>
     (case comment_llm e k j of
        Inl ex \<Rightarrow> False
      | Inr r \<Rightarrow>
          (case strptime e (scheduled_date pp @ '' '' @ scheduled_time pp) of
             None \<Rightarrow> False
           | Some t \<Rightarrow>
               add_minutes t (case cr_delay_minutes r of None \<Rightarrow> 30 | Some d \<Rightarrow> d) \<noteq> None))"

definition post_label :: "nat \<Rightarrow> string" where
  "post_label k = ''P'' @ str_nat (k + 1)"

definition expected_posts :: "env \<Rightarrow> post_plan list \<Rightarrow> string list" where
  \<comment> \<open>The identifiers of the items whose post is generated, in plan order.\<close>
  "expected_posts e items =
     map (\<lambda>(k, pp). post_label k) (filter (\<lambda>(k, pp). post_generated e k pp) (enumerate 0 items))"

definition expected_commenters :: "env \<Rightarrow> nat \<Rightarrow> post_plan \<Rightarrow> string list" where
  \<comment> \<open>The commenters of item \<open>k\<close> whose comment is generated, in order; none without a post.\<close>
  "expected_commenters e k pp =
     (if post_generated e k pp
      then map snd (filter (\<lambda>(j, u). comment_generated e k pp j)
                      (enumerate 0 (commenting_personas pp)))
      else [])"

definition comments_on :: "string \<Rightarrow> reddit_comment list \<Rightarrow> reddit_comment list" where
  "comments_on pid cs = filter (\<lambda>c. c_post_id c = pid) cs"

definition partial_env :: env where
  \<comment> \<open>As \<open>sample_env\<close>, but the post of the second item and the first comment on the
      first post fail.\<close>
  "partial_env =
     sample_env\<lparr>post_llm := (\<lambda>i. if i = 1 then Inl (GenerationError ''timeout'')
                                else Inr \<lparr>pr_title = ''title'', pr_body = ''body''\<rparr>),
                comment_llm := (\<lambda>i j. if i = 0 \<and> j = 0 then Inl (GenerationError ''timeout'')
                                     else Inr \<lparr>cr_comment_text = ''same here'',
                                              cr_delay_minutes = Some 45\<rparr>)\<rparr>"

definition partial_content :: generated_content_t where
  "partial_content =
     \<lparr>posts =
        [sample_post ''P1'' ''r/startups'' ''riley_ops'' 1064529195,
         sample_post ''P3'' ''r/productivity'' ''emily_econ'' 1064535585],
      comments =
        [sample_comment ''C1'' ''P1'' None ''emily_econ'' 1064529240 45,
         sample_comment ''C2'' ''P3'' None ''riley_ops'' 1064535630 45,
         sample_comment ''C3'' ''P3'' (Some ''C2'') ''jordan_consults'' 1064535630 45],
      quality_assessment = zero_score\<rparr>"

section \<open>The workflow step by step\<close>

lemma invoke_step:
  "n \<noteq> END_node \<Longrightarrow> 0 < fuel \<Longrightarrow>
   invoke e fuel n kc kr s =
     (case run_node e n kc kr s of
        Inl ex \<Rightarrow> ([(n, s)], Inl ex)
      | Inr s' \<Rightarrow>
          (case next_node n s' of
             Inl ex \<Rightarrow> ([(n, s)], Inl ex)
           | Inr n' \<Rightarrow>
               apfst (Cons (n, s))
                 (invoke e (fuel - 1) n' (if n = PlanCritic then Suc kc else kc)
                    (if n = RefinePlan then Suc kr else kr) s')))"
  by (cases fuel; cases n) (simp_all add: apfst_def map_prod_def split: sum.splits prod.splits)

lemma invoke_zero: "fst (invoke e 0 n kc kr s) = []"
  by (cases n) simp_all

lemma content_generator_counters:
  "content_generator_agent e s = Inr s' \<Longrightarrow>
   max_iterations s' = max_iterations s \<and> refinement_iteration s' = refinement_iteration s"
  by (auto simp: content_generator_agent_def split: option.splits sum.splits)

lemma run_node_counters:
  "run_node e n kc kr s = Inr s' \<Longrightarrow>
   max_iterations s' = max_iterations s \<and>
   refinement_iteration s' =
     (if n = RefinePlan then refinement_iteration s + 1 else refinement_iteration s)"
  by (cases n)
     (auto simp: run_node_def planner_agent_def plan_critic_agent_def refine_plan_agent_def
        invoke_empty_input_def final_critic_agent_def Let_def content_generator_counters
        split: option.splits sum.splits)

lemma next_node_refine:
  "next_node n s = Inr RefinePlan \<Longrightarrow>
   n = PlanCritic \<and> refinement_iteration s < max_iterations s"
  by (cases n) (auto simp: next_node_def should_refine_plan_def split: option.splits if_splits)

lemma invoke_trace_bounds:
  "refinement_iteration s \<le> max_iterations s \<Longrightarrow>
   (n = RefinePlan \<longrightarrow> refinement_iteration s < max_iterations s) \<Longrightarrow>
   (n', s') \<in> set (fst (invoke e fuel n kc kr s)) \<Longrightarrow>
   refinement_iteration s \<le> refinement_iteration s' \<and>
   refinement_iteration s' \<le> max_iterations s' \<and> max_iterations s' = max_iterations s"
proof (induction fuel arbitrary: n kc kr s)
  case 0
  then show ?case by (simp add: invoke_zero)
next
  case (Suc fuel)
  show ?case
  proof (cases "n = END_node")
    case True
    with Suc.prems show ?thesis by simp
  next
    case False
    note step = invoke_step [OF False, of "Suc fuel" e kc kr s, simplified]
    show ?thesis
    proof (cases "run_node e n kc kr s")
      case (Inl ex)
      with step Suc.prems show ?thesis by simp
    next
      case ran: (Inr s1)
      note cnt = run_node_counters [OF ran]
      show ?thesis
      proof (cases "next_node n s1")
        case (Inl ex)
        with step ran Suc.prems show ?thesis by simp
      next
        case nxt: (Inr n1)
        let ?rest = "invoke e fuel n1 (if n = PlanCritic then Suc kc else kc)
                       (if n = RefinePlan then Suc kr else kr) s1"
        from step ran nxt Suc.prems(3)
        consider "(n', s') = (n, s)" | "(n', s') \<in> set (fst ?rest)"
          by auto
        then show ?thesis
        proof cases
          case 1
          with Suc.prems show ?thesis by simp
        next
          case 2
          have a: "refinement_iteration s1 \<le> max_iterations s1"
            using cnt Suc.prems(1,2) by (auto split: if_splits)
          have b: "n1 = RefinePlan \<longrightarrow> refinement_iteration s1 < max_iterations s1"
            using next_node_refine nxt by blast
          from Suc.IH [OF a b 2] cnt show ?thesis by (auto split: if_splits)
        qed
      qed
    qed
  qed
qed


lemma invoke_trace_sorted:
  "refinement_iteration s \<le> max_iterations s \<Longrightarrow>
   (n = RefinePlan \<longrightarrow> refinement_iteration s < max_iterations s) \<Longrightarrow>
   sorted (iteration_trace (fst (invoke e fuel n kc kr s)))"
proof (induction fuel arbitrary: n kc kr s)
  case 0
  then show ?case by (simp add: invoke_zero iteration_trace_def)
next
  case (Suc fuel)
  show ?case
  proof (cases "n = END_node")
    case True
    then show ?thesis by (simp add: iteration_trace_def)
  next
    case False
    note step = invoke_step [OF False, of "Suc fuel" e kc kr s, simplified]
    show ?thesis
    proof (cases "run_node e n kc kr s")
      case (Inl ex)
      with step show ?thesis by (simp add: iteration_trace_def)
    next
      case ran: (Inr s1)
      note cnt = run_node_counters [OF ran]
      show ?thesis
      proof (cases "next_node n s1")
        case (Inl ex)
        with step ran show ?thesis by (simp add: iteration_trace_def)
      next
        case nxt: (Inr n1)
        let ?rest = "invoke e fuel n1 (if n = PlanCritic then Suc kc else kc)
                       (if n = RefinePlan then Suc kr else kr) s1"
        have a: "refinement_iteration s1 \<le> max_iterations s1"
          using cnt Suc.prems by (auto split: if_splits)
        have b: "n1 = RefinePlan \<longrightarrow> refinement_iteration s1 < max_iterations s1"
          using next_node_refine nxt by blast
        have low: "refinement_iteration s \<le> refinement_iteration (snd x)"
          if "x \<in> set (fst ?rest)" for x
        proof -
          from that have "(fst x, snd x) \<in> set (fst ?rest)" by simp
          from invoke_trace_bounds [OF a b this] cnt show ?thesis
            by (auto split: if_splits)
        qed
        from Suc.IH [OF a b] low step ran nxt show ?thesis
          by (simp add: iteration_trace_def)
      qed
    qed
  qed
qed

lemma invoke_counts_refinements:
  "snd (invoke e fuel n kc kr s) = Inr fs \<Longrightarrow>
   refinement_iteration fs =
     refinement_iteration s + int (refine_calls (fst (invoke e fuel n kc kr s))) \<and>
   max_iterations fs = max_iterations s"
proof (induction fuel arbitrary: n kc kr s)
  case 0
  then show ?case by (cases n) (simp_all add: refine_calls_def)
next
  case (Suc fuel)
  show ?case
  proof (cases "n = END_node")
    case True
    with Suc.prems show ?thesis by (simp add: refine_calls_def)
  next
    case False
    note step = invoke_step [OF False, of "Suc fuel" e kc kr s, simplified]
    show ?thesis
    proof (cases "run_node e n kc kr s")
      case (Inl ex)
      with step Suc.prems show ?thesis by simp
    next
      case ran: (Inr s1)
      note cnt = run_node_counters [OF ran]
      show ?thesis
      proof (cases "next_node n s1")
        case (Inl ex)
        with step ran Suc.prems show ?thesis by simp
      next
        case nxt: (Inr n1)
        let ?rest = "invoke e fuel n1 (if n = PlanCritic then Suc kc else kc)
                       (if n = RefinePlan then Suc kr else kr) s1"
        from step ran nxt Suc.prems have "snd ?rest = Inr fs" by simp
        from Suc.IH [OF this] cnt step ran nxt show ?thesis
          by (simp add: refine_calls_def)
      qed
    qed
  qed
qed

lemma post_loop_error:
  "post_loop e pd i items ps cs = Inl ex \<Longrightarrow> \<exists>u. ex = KeyError u"
  by (induction e pd i items ps cs rule: post_loop.induct)
     (auto split: option.splits sum.splits prod.splits)

lemma run_node_error:
  "run_node e n kc kr s = Inl ex \<Longrightarrow> ex \<noteq> GraphRecursionError"
  by (cases n)
     (auto simp: run_node_def planner_agent_def plan_critic_agent_def refine_plan_agent_def
        refine_template_def final_critic_agent_def content_generator_agent_def Let_def
        dest: post_loop_error split: option.splits sum.splits prod.splits if_splits)

lemma next_node_error:
  "next_node n s = Inl ex \<Longrightarrow> \<exists>u. ex = KeyError u"
  by (cases n) (auto simp: next_node_def should_refine_plan_def split: option.splits if_splits)

lemma next_node_steps:
  "run_node e n kc kr s = Inr s1 \<Longrightarrow> next_node n s1 = Inr n1 \<Longrightarrow> n \<noteq> END_node \<Longrightarrow>
   refinement_iteration s \<le> max_iterations s \<Longrightarrow>
   (n = RefinePlan \<longrightarrow> refinement_iteration s < max_iterations s) \<Longrightarrow>
   Suc (steps_needed n1 s1) \<le> steps_needed n s"
  by (cases n; cases n1)
     (auto simp: steps_needed_def Let_def next_node_def should_refine_plan_def
        dest!: run_node_counters split: option.splits if_splits)

lemma invoke_terminates:
  "refinement_iteration s \<le> max_iterations s \<Longrightarrow>
   (n = RefinePlan \<longrightarrow> refinement_iteration s < max_iterations s) \<Longrightarrow>
   steps_needed n s \<le> fuel \<Longrightarrow>
   snd (invoke e fuel n kc kr s) \<noteq> Inl GraphRecursionError \<and>
   length (fst (invoke e fuel n kc kr s)) \<le> steps_needed n s"
proof (induction fuel arbitrary: n kc kr s)
  case 0
  then show ?case by (cases n) (auto simp: steps_needed_def Let_def)
next
  case (Suc fuel)
  show ?case
  proof (cases "n = END_node")
    case True
    then show ?thesis by simp
  next
    case False
    note step = invoke_step [OF False, of "Suc fuel" e kc kr s, simplified]
    have pos: "0 < steps_needed n s"
      using False by (cases n) (simp_all add: steps_needed_def Let_def)
    show ?thesis
    proof (cases "run_node e n kc kr s")
      case (Inl ex)
      with step run_node_error [OF Inl] pos show ?thesis by auto
    next
      case ran: (Inr s1)
      note cnt = run_node_counters [OF ran]
      show ?thesis
      proof (cases "next_node n s1")
        case (Inl ex)
        with step ran next_node_error [OF Inl] pos show ?thesis by auto
      next
        case nxt: (Inr n1)
        have a: "refinement_iteration s1 \<le> max_iterations s1"
          using cnt Suc.prems by (auto split: if_splits)
        have b: "n1 = RefinePlan \<longrightarrow> refinement_iteration s1 < max_iterations s1"
          using next_node_refine nxt by blast
        have c: "Suc (steps_needed n1 s1) \<le> steps_needed n s"
          using next_node_steps [OF ran nxt False Suc.prems(1,2)] .
        with Suc.prems(3) have d: "steps_needed n1 s1 \<le> fuel" by simp
        let ?rest = "invoke e fuel n1 (if n = PlanCritic then Suc kc else kc)
                       (if n = RefinePlan then Suc kr else kr) s1"
        have ih: "snd ?rest \<noteq> Inl GraphRecursionError \<and>
                  length (fst ?rest) \<le> steps_needed n1 s1"
          using Suc.IH [OF a b d] .
        have "invoke e (Suc fuel) n kc kr s = apfst (Cons (n, s)) ?rest"
          using step ran nxt by simp
        with ih c show ?thesis by simp
      qed
    qed
  qed
qed

lemma invoke_final_bounds:
  "refinement_iteration s \<le> max_iterations s \<Longrightarrow>
   (n = RefinePlan \<longrightarrow> refinement_iteration s < max_iterations s) \<Longrightarrow>
   snd (invoke e fuel n kc kr s) = Inr fs \<Longrightarrow>
   refinement_iteration fs \<le> max_iterations fs"
proof (induction fuel arbitrary: n kc kr s)
  case 0
  then show ?case by (cases n) simp_all
next
  case (Suc fuel)
  show ?case
  proof (cases "n = END_node")
    case True
    with Suc.prems show ?thesis by simp
  next
    case False
    note step = invoke_step [OF False, of "Suc fuel" e kc kr s, simplified]
    show ?thesis
    proof (cases "run_node e n kc kr s")
      case (Inl ex)
      with step Suc.prems show ?thesis by simp
    next
      case ran: (Inr s1)
      note cnt = run_node_counters [OF ran]
      show ?thesis
      proof (cases "next_node n s1")
        case (Inl ex)
        with step ran Suc.prems show ?thesis by simp
      next
        case nxt: (Inr n1)
        let ?rest = "invoke e fuel n1 (if n = PlanCritic then Suc kc else kc)
                       (if n = RefinePlan then Suc kr else kr) s1"
        have a: "refinement_iteration s1 \<le> max_iterations s1"
          using cnt Suc.prems(1,2) by (auto split: if_splits)
        have b: "n1 = RefinePlan \<longrightarrow> refinement_iteration s1 < max_iterations s1"
          using next_node_refine nxt by blast
        from step ran nxt Suc.prems(3) have "snd ?rest = Inr fs" by simp
        from Suc.IH [OF a b this] show ?thesis .
      qed
    qed
  qed
qed

lemma refine_plan_agent_rejects:
  "quality_score s = Some q \<Longrightarrow> strategic_plan s = Some plan \<Longrightarrow> wp_posts plan \<noteq> [] \<Longrightarrow>
   refine_plan_agent e s = Inl (ValueError ''refine_prompt'')"
  by (simp add: refine_plan_agent_def refine_template_def)

lemma refine_plan_agent_returns:
  "refine_plan_agent e s = Inr s' \<Longrightarrow>
   s' = s\<lparr>refinement_iteration := refinement_iteration s + 1\<rparr>"
  by (auto simp: refine_plan_agent_def invoke_empty_input_def split: option.splits)

section \<open>The convergence gate\<close>

text \<open>
  C1. With a quality score in the state, \<open>should_refine_plan\<close> routes to content
  generation when the overall score is at least 7.5; below 7.5 it routes to content
  generation when \<open>refinement_iteration\<close> has reached \<open>max_iterations\<close>, and to
  refinement otherwise. The decision depends on these three values only. When the
  planner succeeds and the first score of the plan critic is at least 7.5, the run calls
  the planner, the plan critic and then content generation: \<open>refine_plan\<close> is never
  called.
\<close>

theorem convergence_gate_rule:
  "(quality_score s = Some q \<longrightarrow>
      (overall_score q \<ge> 7.5 \<longrightarrow> should_refine_plan s = Inr GenerateContent) \<and>
      (overall_score q < 7.5 \<and> refinement_iteration s \<ge> max_iterations s \<longrightarrow>
         should_refine_plan s = Inr GenerateContent) \<and>
      (overall_score q < 7.5 \<and> refinement_iteration s < max_iterations s \<longrightarrow>
         should_refine_plan s = Inr RefinePlan)) \<and>
   (quality_score s = Some q \<and> quality_score t = Some r \<and>
    overall_score q = overall_score r \<and> refinement_iteration s = refinement_iteration t \<and>
    max_iterations s = max_iterations t \<longrightarrow> should_refine_plan s = should_refine_plan t) \<and>
   (planner_llm e = Inr wp \<and> critic_llm e 0 = Inr (q0, raw) \<and> overall_score q0 \<ge> 7.5 \<longrightarrow>
      RefinePlan \<notin> fst ` set (fst (invoke e recursion_limit Planner 0 0
                                      (initial_state ci ps srs tqs ppw wn))) \<and>
      take 3 (map fst (fst (invoke e recursion_limit Planner 0 0
                              (initial_state ci ps srs tqs ppw wn))))
        = [Planner, PlanCritic, GenerateContent])"
proof -
  have gate: "quality_score s = Some q \<longrightarrow>
      (overall_score q \<ge> 7.5 \<longrightarrow> should_refine_plan s = Inr GenerateContent) \<and>
      (overall_score q < 7.5 \<and> refinement_iteration s \<ge> max_iterations s \<longrightarrow>
         should_refine_plan s = Inr GenerateContent) \<and>
      (overall_score q < 7.5 \<and> refinement_iteration s < max_iterations s \<longrightarrow>
         should_refine_plan s = Inr RefinePlan)"
    by (simp add: should_refine_plan_def)
  have pure: "quality_score s = Some q \<and> quality_score t = Some r \<and>
    overall_score q = overall_score r \<and> refinement_iteration s = refinement_iteration t \<and>
    max_iterations s = max_iterations t \<longrightarrow> should_refine_plan s = should_refine_plan t"
    by (simp add: should_refine_plan_def)
  have run: "map fst (fst (invoke e recursion_limit Planner 0 0
                             (initial_state ci ps srs tqs ppw wn)))
             = [Planner, PlanCritic, GenerateContent] \<or>
             map fst (fst (invoke e recursion_limit Planner 0 0
                             (initial_state ci ps srs tqs ppw wn)))
             = [Planner, PlanCritic, GenerateContent, FinalCritic]"
    if "planner_llm e = Inr wp" "critic_llm e 0 = Inr (q0, raw)" "overall_score q0 \<ge> 7.5"
    using that
    by (simp add: invoke_step recursion_limit_def run_node_def next_node_def planner_agent_def
          plan_critic_agent_def should_refine_plan_def final_critic_agent_def
          initial_state_def split: sum.splits prod.splits option.splits)
  have shape: "RefinePlan \<notin> fst ` set tr \<and>
               take 3 (map fst tr) = [Planner, PlanCritic, GenerateContent]"
    if "map fst tr = [Planner, PlanCritic, GenerateContent] \<or>
        map fst tr = [Planner, PlanCritic, GenerateContent, FinalCritic]"
    for tr :: "(node \<times> reddit_state) list"
  proof -
    have "fst ` set tr = set (map fst tr)" by simp
    with that show ?thesis by auto
  qed
  have trace: "planner_llm e = Inr wp \<and> critic_llm e 0 = Inr (q0, raw) \<and> overall_score q0 \<ge> 7.5 \<longrightarrow>
      RefinePlan \<notin> fst ` set (fst (invoke e recursion_limit Planner 0 0
                                      (initial_state ci ps srs tqs ppw wn))) \<and>
      take 3 (map fst (fst (invoke e recursion_limit Planner 0 0
                              (initial_state ci ps srs tqs ppw wn))))
        = [Planner, PlanCritic, GenerateContent]"
  proof (intro impI, elim conjE)
    assume h: "planner_llm e = Inr wp" "critic_llm e 0 = Inr (q0, raw)" "overall_score q0 \<ge> 7.5"
    from shape [OF run [OF h]] show
      "RefinePlan \<notin> fst ` set (fst (invoke e recursion_limit Planner 0 0
                                      (initial_state ci ps srs tqs ppw wn))) \<and>
       take 3 (map fst (fst (invoke e recursion_limit Planner 0 0
                              (initial_state ci ps srs tqs ppw wn))))
        = [Planner, PlanCritic, GenerateContent]" .
  qed
  show ?thesis by (rule conjI [OF gate conjI [OF pure trace]])
qed


theorem convergence_gate_rule_witness:
  "should_refine_plan (scored_state 8 0) = Inr GenerateContent \<and>
   should_refine_plan (scored_state 6 2) = Inr GenerateContent \<and>
   should_refine_plan (scored_state 6 1) = Inr RefinePlan \<and>
   planner_llm high_first_env = Inr sample_plan \<and>
   critic_llm high_first_env 0 = Inr (sample_score 8, ''critique'') \<and>
   overall_score (sample_score 8) \<ge> 7.5 \<and>
   RefinePlan \<notin> fst ` set (fst (invoke high_first_env recursion_limit Planner 0 0 sample_state))"
  using convergence_gate_rule [where s = "scored_state 8 0" and q = "sample_score 8"
          and t = "scored_state 8 0" and r = "sample_score 8" and e = high_first_env
          and wp = sample_plan and ?q0.0 = "sample_score 8" and raw = "''critique''"
          and ci = "''Slideforge''" and ps = "[riley, jordan, emily]" and srs = "[''r/startups'']"
          and tqs = "[''pitch deck help'']" and ppw = 3 and wn = 1]
        convergence_gate_rule [where s = "scored_state 6 2" and q = "sample_score 6"
          and t = "scored_state 6 2" and r = "sample_score 6"]
        convergence_gate_rule [where s = "scored_state 6 1" and q = "sample_score 6"
          and t = "scored_state 6 1" and r = "sample_score 6"]
  by (simp add: scored_state_def sample_state_def initial_state_def sample_score_def
        high_first_env_def sample_env_def)

section \<open>The refinement counter\<close>

text \<open>
  C2. At a request whose first plan has a post and scores below 7.5, the gate sends the
  state to \<open>refine_plan_agent\<close>, which raises \<open>ValueError\<close> while it makes a template of
  its prompt, before the \<open>try\<close>: \<open>refinement_iteration\<close> is not advanced, nothing
  catches the exception, and the run ends with it after the calls of the planner, the
  plan critic and the refiner.
\<close>

theorem refinement_prompt_rejected:
  "refine_plan_agent sample_env gate_state = Inl (ValueError ''refine_prompt'') \<and>
   fst (invoke sample_env recursion_limit Planner 0 0 sample_state)
     = [(Planner, sample_state),
        (PlanCritic, sample_state\<lparr>strategic_plan := Some sample_plan\<rparr>),
        (RefinePlan, gate_state)] \<and>
   sample_run sample_env = Inl (ValueError ''refine_prompt'')"
proof -
  have a: "refine_plan_agent sample_env gate_state = Inl (ValueError ''refine_prompt'')"
    by code_simp
  have b: "fst (invoke sample_env recursion_limit Planner 0 0 sample_state)
             = [(Planner, sample_state),
                (PlanCritic, sample_state\<lparr>strategic_plan := Some sample_plan\<rparr>),
                (RefinePlan, gate_state)]"
    by code_simp
  have c: "sample_run sample_env = Inl (ValueError ''refine_prompt'')"
    by code_simp
  from a b c show ?thesis by simp
qed

section \<open>Failure of the planner\<close>

lemma planner_failure_run:
  assumes "planner_llm e = Inl ex"
  shows "planner_agent e s = Inr s"
    and "strategic_plan s = None \<Longrightarrow>
         invoke e recursion_limit Planner 0 0 s
           = ([(Planner, s), (PlanCritic, s)], Inl (KeyError ''strategic_plan''))"
  using assms
  by (simp_all add: invoke_step recursion_limit_def run_node_def next_node_def planner_agent_def
        plan_critic_agent_def)

text \<open>
  C5. The handler of \<open>planner_agent\<close> returns the state it was given and raises
  nothing: at a request whose planner call fails, the stage returns normally with the
  state unchanged, the graph goes on to the plan critic, and the run ends with the
  \<open>KeyError\<close> that the plan critic raises on the missing key \<open>strategic_plan\<close>.
\<close>

theorem planner_failure_absorbed:
  "planner_agent failing_planner_env sample_state = Inr sample_state \<and>
   invoke failing_planner_env recursion_limit Planner 0 0 sample_state
     = ([(Planner, sample_state), (PlanCritic, sample_state)],
        Inl (KeyError ''strategic_plan'')) \<and>
   sample_run failing_planner_env = Inl (KeyError ''strategic_plan'')"
proof -
  have f: "planner_llm failing_planner_env = Inl (GenerationError ''rate limit'')"
    by (simp add: failing_planner_env_def)
  have n: "strategic_plan sample_state = None"
    by (simp add: sample_state_def initial_state_def)
  from planner_failure_run [OF f] n show ?thesis
    by (simp add: sample_run_def generate_reddit_calendar_def sample_state_def)
qed

section \<open>Failure of the first plan critic call\<close>

text \<open>
  C9. When the planner succeeds and the first call of the plan critic fails, the plan
  critic returns the state as it was, without a quality score; \<open>should_refine_plan\<close>
  then raises \<open>KeyError\<close> on the key \<open>quality_score\<close>, nothing catches it, and the run
  ends with that error after the calls of the planner and the plan critic.
\<close>

theorem first_critic_failure_aborts_run:
  assumes "planner_llm e = Inr wp" and "critic_llm e 0 = Inl ex"
  shows "plan_critic_agent e 0 ((initial_state ci ps srs tqs ppw wn)\<lparr>strategic_plan := Some wp\<rparr>)
           = Inr ((initial_state ci ps srs tqs ppw wn)\<lparr>strategic_plan := Some wp\<rparr>) \<and>
         should_refine_plan ((initial_state ci ps srs tqs ppw wn)\<lparr>strategic_plan := Some wp\<rparr>)
           = Inl (KeyError ''quality_score'') \<and>
         invoke e recursion_limit Planner 0 0 (initial_state ci ps srs tqs ppw wn)
           = ([(Planner, initial_state ci ps srs tqs ppw wn),
               (PlanCritic, (initial_state ci ps srs tqs ppw wn)\<lparr>strategic_plan := Some wp\<rparr>)],
              Inl (KeyError ''quality_score'')) \<and>
         generate_reddit_calendar e ci ps srs tqs ppw wn = Inl (KeyError ''quality_score'')"
  using assms
  by (simp add: generate_reddit_calendar_def invoke_step recursion_limit_def run_node_def
        next_node_def planner_agent_def plan_critic_agent_def should_refine_plan_def
        initial_state_def)

theorem first_critic_failure_aborts_run_witness:
  "planner_llm failing_critic_env = Inr sample_plan \<and>
   critic_llm failing_critic_env 0 = Inl (GenerationError ''timeout'') \<and>
   sample_run failing_critic_env = Inl (KeyError ''quality_score'')"
  using first_critic_failure_aborts_run [of failing_critic_env sample_plan
          "GenerationError ''timeout''" "''Slideforge''" "[riley, jordan, emily]"
          "[''r/startups'']" "[''pitch deck help'']" 3 1]
  by (simp add: failing_critic_env_def sample_env_def sample_run_def)

section \<open>Unknown primary persona\<close>

lemma personas_dict_dom: "dom (personas_dict ps) = username ` set ps"
proof -
  have "dom (foldl (\<lambda>m p. m(username p \<mapsto> p)) m0 ps) = dom m0 \<union> username ` set ps" for m0
    by (induction ps arbitrary: m0) auto
  then show ?thesis by (simp add: personas_dict_def)
qed

lemma personas_dict_None: "personas_dict ps u = None \<longleftrightarrow> u \<notin> username ` set ps"
proof -
  have "personas_dict ps u = None \<longleftrightarrow> u \<notin> dom (personas_dict ps)"
    by (simp add: domIff)
  then show ?thesis by (simp add: personas_dict_dom)
qed

lemma post_loop_unknown_primary:
  "\<exists>pp \<in> set items. pd (primary_persona pp) = None \<Longrightarrow>
   \<exists>pp \<in> set items. pd (primary_persona pp) = None \<and>
     post_loop e pd i items ps cs = Inl (KeyError (primary_persona pp))"
proof (induction items arbitrary: i ps cs)
  case Nil
  then show ?case by simp
next
  case (Cons a items)
  show ?case
  proof (cases "pd (primary_persona a)")
    case None
    then show ?thesis by auto
  next
    case (Some primary)
    with Cons.prems have "\<exists>pp \<in> set items. pd (primary_persona pp) = None" by auto
    from Cons.IH [OF this] Some show ?thesis
      by (cases "make_post e i primary a") (auto split: prod.splits)
  qed
qed

text \<open>
  C10. When some item of the plan names a primary persona whose username is not in the
  roster, \<open>content_generator_agent\<close> raises \<open>KeyError\<close> for such an item: the stage returns
  no content at all, whatever the other items are, and the graph run that called it
  ends with that error.
\<close>

theorem unknown_primary_persona_aborts_stage:
  assumes "strategic_plan s = Some plan"
      and "\<exists>pp \<in> set (wp_posts plan). primary_persona pp \<notin> username ` set (personas s)"
  shows "\<exists>pp \<in> set (wp_posts plan).
           primary_persona pp \<notin> username ` set (personas s) \<and>
           content_generator_agent e s = Inl (KeyError (primary_persona pp)) \<and>
           invoke e (Suc fuel) GenerateContent kc kr s
             = ([(GenerateContent, s)], Inl (KeyError (primary_persona pp)))"
proof -
  from assms(2) have "\<exists>pp \<in> set (wp_posts plan).
      personas_dict (personas s) (primary_persona pp) = None"
    by (simp add: personas_dict_None)
  from post_loop_unknown_primary [OF this, of e 0 "[]" "[]"]
  obtain pp where pp: "pp \<in> set (wp_posts plan)"
      "personas_dict (personas s) (primary_persona pp) = None"
      "post_loop e (personas_dict (personas s)) 0 (wp_posts plan) [] []
         = Inl (KeyError (primary_persona pp))"
    by blast
  from pp(3) assms(1) have c: "content_generator_agent e s = Inl (KeyError (primary_persona pp))"
    by (simp add: content_generator_agent_def)
  then have "invoke e (Suc fuel) GenerateContent kc kr s
             = ([(GenerateContent, s)], Inl (KeyError (primary_persona pp)))"
    by (simp add: run_node_def)
  with pp c show ?thesis by (auto simp: personas_dict_None)
qed

theorem unknown_primary_persona_aborts_stage_witness:
  "strategic_plan ghost_state = Some ghost_plan \<and>
   (\<exists>pp \<in> set (wp_posts ghost_plan). primary_persona pp \<notin> username ` set (personas ghost_state)) \<and>
   content_generator_agent sample_env ghost_state = Inl (KeyError ''ghost_user'') \<and>
   (\<exists>pp \<in> set (wp_posts ghost_plan).
      invoke sample_env recursion_limit GenerateContent 1 0 ghost_state
        = ([(GenerateContent, ghost_state)], Inl (KeyError (primary_persona pp))))"
proof -
  have h1: "strategic_plan ghost_state = Some ghost_plan"
    by (simp add: ghost_state_def)
  have h2: "\<exists>pp \<in> set (wp_posts ghost_plan).
              primary_persona pp \<notin> username ` set (personas ghost_state)"
    by code_simp
  have ev: "content_generator_agent sample_env ghost_state = Inl (KeyError ''ghost_user'')"
    by code_simp
  have "recursion_limit = Suc 24" by (simp add: recursion_limit_def)
  with unknown_primary_persona_aborts_stage [OF h1 h2, of sample_env 24 1 0] h1 h2 ev
  show ?thesis by auto
qed

section \<open>Identifiers\<close>

text \<open>Decimal printing is one-to-one, so the identifiers of two positions differ.\<close>

lemma digit_char_inj: "a < 10 \<Longrightarrow> b < 10 \<Longrightarrow> digit_char a = digit_char b \<Longrightarrow> a = b"
proof -
  have e: "n < 10 \<Longrightarrow> n \<in> {0, 1, 2, 3, 4, 5, 6, 7, 8, 9}" for n :: nat by auto
  assume "a < 10" "b < 10" "digit_char a = digit_char b"
  with e [of a] e [of b] show ?thesis
    by (auto simp: digit_char_def)
qed

lemma str_nat_nonempty: "str_nat n \<noteq> []"
  by (subst str_nat.simps) simp

lemma str_nat_length: "length (str_nat n) = 1 \<longleftrightarrow> n < 10"
proof (cases "n < 10")
  case True
  then show ?thesis by (subst str_nat.simps) simp
next
  case False
  with str_nat_nonempty [of "n div 10"] show ?thesis by (subst str_nat.simps) simp
qed

lemma str_nat_inj: "str_nat m = str_nat n \<Longrightarrow> m = n"
proof (induction m arbitrary: n rule: str_nat.induct)
  case (1 m)
  show ?case
  proof (cases "m < 10")
    case True
    with "1.prems" str_nat_length [of m] str_nat_length [of n] have n: "n < 10" by simp
    from True have "str_nat m = [digit_char m]" by (subst str_nat.simps) simp
    moreover from n have "str_nat n = [digit_char n]" by (subst str_nat.simps) simp
    ultimately show ?thesis using "1.prems" True n digit_char_inj by simp
  next
    case False
    with "1.prems" str_nat_length [of m] str_nat_length [of n] have n: "\<not> n < 10" by simp
    from False have "str_nat m = str_nat (m div 10) @ [digit_char (m mod 10)]"
      by (subst str_nat.simps) simp
    moreover from n have "str_nat n = str_nat (n div 10) @ [digit_char (n mod 10)]"
      by (subst str_nat.simps) simp
    ultimately have eq: "str_nat (m div 10) = str_nat (n div 10)"
        "digit_char (m mod 10) = digit_char (n mod 10)"
      using "1.prems" by simp_all
    from "1.IH" [OF False eq(1)] have d: "m div 10 = n div 10" .
    have "m mod 10 = n mod 10"
      by (rule digit_char_inj [OF _ _ eq(2)]) simp_all
    with d show ?thesis by (metis div_mult_mod_eq)
  qed
qed

section \<open>Invariants of the content loops\<close>

text \<open>
  A property of the list of comments that every appended comment preserves holds when the
  comment loop is left. A property of the index of the next plan item and the lists of
  posts and comments that every skipped item, every appended post and every appended
  comment preserve holds when the loop over the plan returns.
\<close>

lemma comment_loop_invariant:
  assumes "P cs"
      and "\<And>j u commenter c cs. P cs \<Longrightarrow> pd u = Some commenter \<Longrightarrow>
             make_comment e i j commenter post t (choose_parent e i j post cs) cs = Inr c \<Longrightarrow>
             P (cs @ [c])"
  shows "P (fst (comment_loop e pd i post t j us cs))"
  using assms(1)
proof (induction us arbitrary: j cs)
  case Nil
  then show ?case by simp
next
  case (Cons u us)
  show ?case
  proof (cases "pd u")
    case None
    with Cons.prems show ?thesis by simp
  next
    case (Some commenter)
    show ?thesis
    proof (cases "make_comment e i j commenter post t (choose_parent e i j post cs) cs")
      case (Inl ex)
      with Some Cons.IH [OF Cons.prems] show ?thesis by simp
    next
      case (Inr c)
      from assms(2) [OF Cons.prems Some Inr] have "P (cs @ [c])" .
      from Cons.IH [OF this] Some Inr show ?thesis by simp
    qed
  qed
qed

lemma post_loop_invariant:
  assumes "post_loop e pd i (drop i plan) ps cs = Inr (ps', cs')"
      and "Q i ps cs"
      and skip_step: "\<And>k primary ex ps cs.
             Q k ps cs \<Longrightarrow> k < length plan \<Longrightarrow> pd (primary_persona (plan ! k)) = Some primary \<Longrightarrow>
             make_post e k primary (plan ! k) = Inl ex \<Longrightarrow> Q (Suc k) ps cs"
      and post_step: "\<And>k primary post t ps cs.
             Q k ps cs \<Longrightarrow> k < length plan \<Longrightarrow> pd (primary_persona (plan ! k)) = Some primary \<Longrightarrow>
             make_post e k primary (plan ! k) = Inr (post, t) \<Longrightarrow> Q (Suc k) (ps @ [post]) cs"
      and comment_step: "\<And>k primary post t j u commenter c ps cs.
             Q (Suc k) (ps @ [post]) cs \<Longrightarrow> k < length plan \<Longrightarrow>
             pd (primary_persona (plan ! k)) = Some primary \<Longrightarrow>
             make_post e k primary (plan ! k) = Inr (post, t) \<Longrightarrow>
             pd u = Some commenter \<Longrightarrow>
             make_comment e k j commenter post t (choose_parent e k j post cs) cs = Inr c \<Longrightarrow>
             Q (Suc k) (ps @ [post]) (cs @ [c])"
  shows "Q (max i (length plan)) ps' cs'"
  using assms(1,2)
proof (induction "length plan - i" arbitrary: i ps cs)
  case 0
  then show ?case by (simp add: max_def)
next
  case (Suc n)
  from Suc.hyps(2) have lt: "i < length plan" by simp
  then have dr: "drop i plan = plan ! i # drop (Suc i) plan"
    by (simp add: Cons_nth_drop_Suc)
  from Suc.hyps(2) have n: "n = length plan - Suc i" by simp
  from lt have mx: "max (Suc i) (length plan) = max i (length plan)" by simp
  show ?case
  proof (cases "pd (primary_persona (plan ! i))")
    case None
    with Suc.prems(1) dr show ?thesis by simp
  next
    case (Some primary)
    show ?thesis
    proof (cases "make_post e i primary (plan ! i)")
      case (Inl ex)
      with Suc.prems(1) dr Some
      have "post_loop e pd (Suc i) (drop (Suc i) plan) ps cs = Inr (ps', cs')" by simp
      from Suc.hyps(1) [OF n this skip_step [OF Suc.prems(2) lt Some Inl]] mx
      show ?thesis by simp
    next
      case (Inr r)
      obtain post t where r: "r = (post, t)" by (cases r)
      let ?cs = "fst (comment_loop e pd i post t 0 (commenting_personas (plan ! i)) cs)"
      from Suc.prems(1) dr Some Inr r
      have run: "post_loop e pd (Suc i) (drop (Suc i) plan) (ps @ [post]) ?cs = Inr (ps', cs')"
        by simp
      have q1: "Q (Suc i) (ps @ [post]) cs"
        using post_step [OF Suc.prems(2) lt Some] Inr r by simp
      have "Q (Suc i) (ps @ [post]) ?cs"
      proof (rule comment_loop_invariant [where P = "Q (Suc i) (ps @ [post])"])
        show "Q (Suc i) (ps @ [post]) cs" by (rule q1)
      next
        fix j u commenter c cs0
        assume "Q (Suc i) (ps @ [post]) cs0" "pd u = Some commenter"
          "make_comment e i j commenter post t (choose_parent e i j post cs0) cs0 = Inr c"
        with comment_step [OF _ lt Some] Inr r show "Q (Suc i) (ps @ [post]) (cs0 @ [c])"
          by simp
      qed
      from Suc.hyps(1) [OF n run this] mx show ?thesis by simp
    qed
  qed
qed

section \<open>Posts and comments as they are built\<close>

lemma make_comment_fields:
  assumes "make_comment e i j commenter post t parent cs = Inr c"
  shows "comment_id c = ''C'' @ str_nat (length cs + 1)"
    and "c_post_id c = post_id post"
    and "parent_comment_id c = map_option comment_id parent"
    and "c_username c = username commenter"
    and "c_timestamp c = t + delay_minutes c"
    and "\<exists>r. comment_llm e i j = Inr r \<and> comment_text c = cr_comment_text r \<and>
             delay_minutes c = (case cr_delay_minutes r of None \<Rightarrow> 30 | Some d \<Rightarrow> d)"
  using assms
  by (auto simp: make_comment_def Let_def add_minutes_def split: sum.splits option.splits if_splits)

lemma choose_parent_Some:
  assumes "choose_parent e i j post cs = Some p"
  shows "p \<in> set cs" and "c_post_id p = post_id post" and "p = last (same_post post cs)"
    and "0 < j" and "random_random e i j > 0.5"
proof -
  from assms have ne: "same_post post cs \<noteq> []" and p: "p = last (same_post post cs)"
    and j: "0 < j" and r: "random_random e i j > 0.5"
    by (auto simp: choose_parent_def split: if_splits)
  from ne p have "p \<in> set (same_post post cs)" by simp
  then show "p \<in> set cs" and "c_post_id p = post_id post"
    by (simp_all add: same_post_def)
  from p j r show "p = last (same_post post cs)" "0 < j" "random_random e i j > 0.5" .
qed

lemma parents_precede_append:
  assumes "parents_precede cs"
      and "\<And>pid. parent_comment_id c = Some pid \<Longrightarrow>
             \<exists>p \<in> set cs. comment_id p = pid \<and> c_post_id p = c_post_id c"
  shows "parents_precede (cs @ [c])"
  unfolding parents_precede_def
proof (intro allI impI)
  fix n pid
  assume n: "n < length (cs @ [c])" and par: "parent_comment_id ((cs @ [c]) ! n) = Some pid"
  show "\<exists>m<n. comment_id ((cs @ [c]) ! m) = pid \<and>
              c_post_id ((cs @ [c]) ! m) = c_post_id ((cs @ [c]) ! n)"
  proof (cases "n < length cs")
    case True
    with par have "parent_comment_id (cs ! n) = Some pid" by (simp add: nth_append)
    with assms(1) True obtain m where m: "m < n" "comment_id (cs ! m) = pid"
        "c_post_id (cs ! m) = c_post_id (cs ! n)"
      unfolding parents_precede_def by blast
    with True show ?thesis by (auto simp: nth_append intro!: exI [of _ m])
  next
    case False
    with n have nl: "n = length cs" by simp
    with par have "parent_comment_id c = Some pid" by simp
    from assms(2) [OF this] obtain p where p: "p \<in> set cs" "comment_id p = pid"
        "c_post_id p = c_post_id c" by blast
    from p(1) obtain m where m: "m < length cs" "cs ! m = p" by (auto simp: in_set_conv_nth)
    with p nl show ?thesis by (auto simp: nth_append intro!: exI [of _ m])
  qed
qed

lemma ids_sequential_append:
  "ids_sequential cs \<Longrightarrow> comment_id c = ''C'' @ str_nat (length cs + 1) \<Longrightarrow>
   ids_sequential (cs @ [c])"
  by (auto simp: ids_sequential_def nth_append less_Suc_eq)

lemma ids_sequential_distinct: "ids_sequential cs \<Longrightarrow> distinct (map comment_id cs)"
  by (auto simp: ids_sequential_def distinct_conv_nth dest: str_nat_inj)

lemma content_generator_result:
  assumes "content_generator_agent e s = Inr s'" and "generated_content s' = Some gc"
  shows "\<exists>plan. strategic_plan s = Some plan \<and>
           post_loop e (personas_dict (personas s)) 0 (drop 0 (wp_posts plan)) [] []
             = Inr (posts gc, comments gc) \<and>
           quality_assessment gc = zero_score \<and>
           s' = s\<lparr>generated_content := Some gc\<rparr>"
  using assms
  by (auto simp: content_generator_agent_def split: option.splits sum.splits prod.splits)

text \<open>The sample plan with the sample answers, evaluated.\<close>

lemma sample_generation:
  "content_generator_agent sample_env approved_state
     = Inr (approved_state\<lparr>generated_content := Some sample_content\<rparr>)"
  by code_simp

section \<open>Threading\<close>

text \<open>
  C7. In the content that \<open>content_generator_agent\<close> returns, a comment whose
  \<open>parent_comment_id\<close> is set has, at a smaller position of the list of comments
  (so it was appended before), a comment with that identifier and with the same
  \<open>post_id\<close>. The comment identifiers are pairwise different, so that comment is the
  only one the parent identifier refers to.
\<close>

theorem parent_comment_precedes:
  assumes "content_generator_agent e s = Inr s'" and "generated_content s' = Some gc"
  shows "(\<forall>n < length (comments gc). \<forall>pid.
            parent_comment_id (comments gc ! n) = Some pid \<longrightarrow>
            (\<exists>m < n. comment_id (comments gc ! m) = pid \<and>
                     c_post_id (comments gc ! m) = c_post_id (comments gc ! n))) \<and>
         distinct (map comment_id (comments gc))"
proof -
  from content_generator_result [OF assms] obtain plan :: week_plan where
    run: "post_loop e (personas_dict (personas s)) 0 (drop 0 (wp_posts plan)) [] []
            = Inr (posts gc, comments gc)"
    by blast
  have "parents_precede (comments gc) \<and> ids_sequential (comments gc)"
  proof (rule post_loop_invariant
           [OF run, where Q = "\<lambda>k ps cs. parents_precede cs \<and> ids_sequential cs"])
    show "parents_precede [] \<and> ids_sequential []"
      by (simp add: parents_precede_def ids_sequential_def)
  next
    fix cs
    assume "parents_precede cs \<and> ids_sequential cs"
    then show "parents_precede cs \<and> ids_sequential cs" .
  next
    fix cs
    assume "parents_precede cs \<and> ids_sequential cs"
    then show "parents_precede cs \<and> ids_sequential cs" .
  next
    fix k primary post t j u commenter c ps cs
    assume inv: "parents_precede cs \<and> ids_sequential cs"
      and mk: "make_comment e k j commenter post t (choose_parent e k j post cs) cs = Inr c"
    note f = make_comment_fields [OF mk]
    have "parents_precede (cs @ [c])"
    proof (rule parents_precede_append)
      show "parents_precede cs" using inv by simp
    next
      fix pid assume "parent_comment_id c = Some pid"
      with f(3) have "map_option comment_id (choose_parent e k j post cs) = Some pid" by simp
      then obtain p where p: "choose_parent e k j post cs = Some p" "comment_id p = pid"
        by (cases "choose_parent e k j post cs") auto
      from choose_parent_Some(1,2) [OF p(1)] p(2) f(2)
      show "\<exists>p \<in> set cs. comment_id p = pid \<and> c_post_id p = c_post_id c" by auto
    qed
    moreover have "ids_sequential (cs @ [c])"
      using inv f(1) by (simp add: ids_sequential_append)
    ultimately show "parents_precede (cs @ [c]) \<and> ids_sequential (cs @ [c])" ..
  qed
  then show ?thesis
    using ids_sequential_distinct by (simp add: parents_precede_def)
qed

theorem parent_comment_precedes_witness:
  "content_generator_agent sample_env approved_state
     = Inr (approved_state\<lparr>generated_content := Some sample_content\<rparr>) \<and>
   generated_content (approved_state\<lparr>generated_content := Some sample_content\<rparr>)
     = Some sample_content \<and>
   map parent_comment_id (comments sample_content)
     = [None, Some ''C1'', None, None, Some ''C4''] \<and>
   parent_comment_id (comments sample_content ! 4) = Some ''C4'' \<and>
   comment_id (comments sample_content ! 3) = ''C4'' \<and>
   c_post_id (comments sample_content ! 3) = c_post_id (comments sample_content ! 4) \<and>
   distinct (map comment_id (comments sample_content))"
proof -
  have g: "generated_content (approved_state\<lparr>generated_content := Some sample_content\<rparr>)
             = Some sample_content" by simp
  have v: "map parent_comment_id (comments sample_content)
             = [None, Some ''C1'', None, None, Some ''C4''] \<and>
           parent_comment_id (comments sample_content ! 4) = Some ''C4'' \<and>
           comment_id (comments sample_content ! 3) = ''C4'' \<and>
           c_post_id (comments sample_content ! 3) = c_post_id (comments sample_content ! 4)"
    by (simp add: sample_content_def sample_comment_def)
  from parent_comment_precedes [OF sample_generation g] sample_generation g v
  show ?thesis by simp
qed

section \<open>Timestamps\<close>

lemma make_post_fields:
  assumes "make_post e k primary pp = Inr (post, t)"
  shows "post_id post = ''P'' @ str_nat (k + 1)"
    and "timestamp post = t"
    and "strptime e (scheduled_date pp @ '' '' @ scheduled_time pp) = Some t"
    and "author_username post = username primary"
  using assms
  by (auto simp: make_post_def split: sum.splits option.splits)





section \<open>From content generation to the end of the run\<close>

lemma run_node_personas:
  "run_node e n kc kr s = Inr s' \<Longrightarrow> personas s' = personas s"
  by (cases n)
     (auto simp: run_node_def planner_agent_def plan_critic_agent_def refine_plan_agent_def
        invoke_empty_input_def final_critic_agent_def content_generator_agent_def Let_def
        split: option.splits sum.splits prod.splits)

lemma next_node_targets:
  "next_node n s = Inr n1 \<Longrightarrow> n \<noteq> END_node \<Longrightarrow> n \<noteq> FinalCritic \<Longrightarrow> n \<noteq> GenerateContent \<Longrightarrow>
   n1 \<noteq> END_node \<and> n1 \<noteq> FinalCritic"
  by (cases n) (auto simp: next_node_def should_refine_plan_def split: option.splits if_splits)

lemma invoke_generate_content:
  "snd (invoke e fuel GenerateContent kc kr s) = Inr fs \<Longrightarrow>
   \<exists>s2. content_generator_agent e s = Inr s2 \<and> final_critic_agent e s2 = Inr fs"
proof -
  assume r: "snd (invoke e fuel GenerateContent kc kr s) = Inr fs"
  then obtain f1 where f1: "fuel = Suc f1" by (cases fuel) auto
  from r f1 obtain s2 where s2: "content_generator_agent e s = Inr s2"
    by (cases "content_generator_agent e s") (auto simp: run_node_def)
  from r f1 s2 have r2: "snd (invoke e f1 FinalCritic kc kr s2) = Inr fs"
    by (simp add: run_node_def next_node_def split: prod.splits)
  then obtain f2 where f2: "f1 = Suc f2" by (cases f1) auto
  from r2 f2 have "final_critic_agent e s2 = Inr fs"
    by (cases "final_critic_agent e s2")
       (auto simp: run_node_def next_node_def split: prod.splits)
  with s2 show ?thesis by blast
qed

lemma invoke_success_shape:
  "n \<noteq> END_node \<Longrightarrow> n \<noteq> FinalCritic \<Longrightarrow> snd (invoke e fuel n kc kr s) = Inr fs \<Longrightarrow>
   \<exists>s1 s2. personas s1 = personas s \<and> content_generator_agent e s1 = Inr s2 \<and>
           final_critic_agent e s2 = Inr fs"
proof (induction fuel arbitrary: n kc kr s)
  case 0
  then show ?case by (cases n) simp_all
next
  case (Suc fuel)
  show ?case
  proof (cases "n = GenerateContent")
    case True
    with Suc.prems(3) invoke_generate_content show ?thesis by blast
  next
    case False
    note step = invoke_step [OF Suc.prems(1), of "Suc fuel" e kc kr s, simplified]
    show ?thesis
    proof (cases "run_node e n kc kr s")
      case (Inl ex)
      with step Suc.prems(3) show ?thesis by simp
    next
      case ran: (Inr s1)
      show ?thesis
      proof (cases "next_node n s1")
        case (Inl ex)
        with step ran Suc.prems(3) show ?thesis by simp
      next
        case nxt: (Inr n1)
        let ?rest = "invoke e fuel n1 (if n = PlanCritic then Suc kc else kc)
                       (if n = RefinePlan then Suc kr else kr) s1"
        from step ran nxt Suc.prems(3) have r: "snd ?rest = Inr fs" by simp
        from next_node_targets [OF nxt Suc.prems(1,2) False]
        have "n1 \<noteq> END_node" "n1 \<noteq> FinalCritic" by simp_all
        from Suc.IH [OF this r] run_node_personas [OF ran] show ?thesis by auto
      qed
    qed
  qed
qed

lemma final_critic_agent_result:
  assumes "generated_content s' = Some gc"
  shows "final_critic_agent e s' =
           (case final_llm e of
              Inl ex \<Rightarrow> Inr (s'\<lparr>final_content := Some gc\<rparr>)
            | Inr (q, raw) \<Rightarrow>
                Inr (s'\<lparr>generated_content := Some (gc\<lparr>quality_assessment := q\<rparr>),
                        final_content := Some (gc\<lparr>quality_assessment := q\<rparr>),
                        content_critique := Some raw\<rparr>))"
  using assms by (simp add: final_critic_agent_def Let_def split: sum.splits prod.splits)

lemma invoke_after_generation:
  assumes "content_generator_agent e s = Inr s'"
  shows "snd (invoke e (Suc (Suc fuel)) GenerateContent kc kr s) = final_critic_agent e s'"
proof -
  from assms obtain gc where "generated_content s' = Some gc"
    by (auto simp: content_generator_agent_def split: option.splits sum.splits prod.splits)
  from final_critic_agent_result [OF this, of e] obtain fs
    where "final_critic_agent e s' = Inr fs"
    by (cases "final_llm e") (auto split: prod.splits)
  with assms show ?thesis
    by (simp add: run_node_def next_node_def split: prod.splits)
qed

lemma run_success:
  assumes "generate_reddit_calendar e ci ps srs tqs ppw wn = Inr gc"
  shows "\<exists>s1 s2 gc0. personas s1 = ps \<and> content_generator_agent e s1 = Inr s2 \<and>
           generated_content s2 = Some gc0 \<and>
           gc = gc0\<lparr>quality_assessment :=
                      (case final_llm e of Inl ex \<Rightarrow> zero_score | Inr (q, raw) \<Rightarrow> q)\<rparr>"
proof -
  let ?init = "initial_state ci ps srs tqs ppw wn"
  from assms obtain fs where fs: "snd (invoke e recursion_limit Planner 0 0 ?init) = Inr fs"
      "final_content fs = Some gc"
    by (auto simp: generate_reddit_calendar_def split: sum.splits option.splits)
  from invoke_success_shape [OF _ _ fs(1)] obtain s1 s2 where
    s: "personas s1 = personas ?init" "content_generator_agent e s1 = Inr s2"
       "final_critic_agent e s2 = Inr fs" by auto
  from s(2) obtain gc0 where g: "generated_content s2 = Some gc0"
      "quality_assessment gc0 = zero_score"
    by (auto simp: content_generator_agent_def split: option.splits sum.splits prod.splits)
  from final_critic_agent_result [OF g(1), of e] s(3) fs(2) g(2)
  have "gc = gc0\<lparr>quality_assessment :=
                  (case final_llm e of Inl ex \<Rightarrow> zero_score | Inr (q, raw) \<Rightarrow> q)\<rparr>"
    by (cases "final_llm e") (auto split: prod.splits)
  with s g show ?thesis by (auto simp: initial_state_def)
qed


section \<open>The placeholder score\<close>

text \<open>
  C8. The content that \<open>content_generator_agent\<close> stores has the score \<open>zero_score\<close>,
  whose five dimensions are 0. A graph run that continues from there returns: when the
  call of the final critic fails, with that content, score unchanged, as
  \<open>final_content\<close>; when it succeeds, with the critic's score in place of the
  placeholder. Whatever \<open>generate_reddit_calendar\<close> returns carries the placeholder if
  the final critic failed and the critic's score if it succeeded.
\<close>

theorem final_critic_placeholder:
  assumes "content_generator_agent e s = Inr s'"
  shows "(\<exists>gc. generated_content s' = Some gc \<and> quality_assessment gc = zero_score \<and>
            (isl (final_llm e) \<longrightarrow>
               snd (invoke e (Suc (Suc fuel)) GenerateContent kc kr s)
                 = Inr (s'\<lparr>final_content := Some gc\<rparr>)) \<and>
            (\<forall>q raw. final_llm e = Inr (q, raw) \<longrightarrow>
               snd (invoke e (Suc (Suc fuel)) GenerateContent kc kr s)
                 = Inr (s'\<lparr>generated_content := Some (gc\<lparr>quality_assessment := q\<rparr>),
                           final_content := Some (gc\<lparr>quality_assessment := q\<rparr>),
                           content_critique := Some raw\<rparr>))) \<and>
         naturalness zero_score = 0 \<and> authenticity zero_score = 0 \<and>
         engagement_potential zero_score = 0 \<and> subtlety zero_score = 0 \<and>
         overall_score zero_score = 0 \<and>
         (\<forall>gc'. generate_reddit_calendar e ci ps srs tqs ppw wn = Inr gc' \<longrightarrow>
            quality_assessment gc'
              = (case final_llm e of Inl ex \<Rightarrow> zero_score | Inr (q, raw) \<Rightarrow> q))"
proof -
  from assms obtain gc where g: "generated_content s' = Some gc"
      "quality_assessment gc = zero_score"
    by (auto simp: content_generator_agent_def split: option.splits sum.splits prod.splits)
  note inv = invoke_after_generation [OF assms, of fuel kc kr]
  note fin = final_critic_agent_result [OF g(1), of e]
  have a: "isl (final_llm e) \<longrightarrow>
             snd (invoke e (Suc (Suc fuel)) GenerateContent kc kr s)
               = Inr (s'\<lparr>final_content := Some gc\<rparr>)"
    using inv fin by (cases "final_llm e") simp_all
  have b: "\<forall>q raw. final_llm e = Inr (q, raw) \<longrightarrow>
             snd (invoke e (Suc (Suc fuel)) GenerateContent kc kr s)
               = Inr (s'\<lparr>generated_content := Some (gc\<lparr>quality_assessment := q\<rparr>),
                         final_content := Some (gc\<lparr>quality_assessment := q\<rparr>),
                         content_critique := Some raw\<rparr>)"
    using inv fin by simp
  have z: "naturalness zero_score = 0 \<and> authenticity zero_score = 0 \<and>
           engagement_potential zero_score = 0 \<and> subtlety zero_score = 0 \<and>
           overall_score zero_score = 0"
    by (simp add: zero_score_def)
  have r: "\<forall>gc'. generate_reddit_calendar e ci ps srs tqs ppw wn = Inr gc' \<longrightarrow>
            quality_assessment gc'
              = (case final_llm e of Inl ex \<Rightarrow> zero_score | Inr (q, raw) \<Rightarrow> q)"
  proof (intro allI impI)
    fix gc' assume "generate_reddit_calendar e ci ps srs tqs ppw wn = Inr gc'"
    from run_success [OF this] show "quality_assessment gc'
              = (case final_llm e of Inl ex \<Rightarrow> zero_score | Inr (q, raw) \<Rightarrow> q)"
      by auto
  qed
  from g a b have "\<exists>gc. generated_content s' = Some gc \<and> quality_assessment gc = zero_score \<and>
            (isl (final_llm e) \<longrightarrow>
               snd (invoke e (Suc (Suc fuel)) GenerateContent kc kr s)
                 = Inr (s'\<lparr>final_content := Some gc\<rparr>)) \<and>
            (\<forall>q raw. final_llm e = Inr (q, raw) \<longrightarrow>
               snd (invoke e (Suc (Suc fuel)) GenerateContent kc kr s)
                 = Inr (s'\<lparr>generated_content := Some (gc\<lparr>quality_assessment := q\<rparr>),
                           final_content := Some (gc\<lparr>quality_assessment := q\<rparr>),
                           content_critique := Some raw\<rparr>))"
    by blast
  with z r show ?thesis by blast
qed

theorem final_critic_placeholder_witness:
  "content_generator_agent failing_final_env approved_state
     = Inr (approved_state\<lparr>generated_content := Some sample_content\<rparr>) \<and>
   isl (final_llm failing_final_env) \<and>
   quality_assessment sample_content = zero_score \<and>
   snd (invoke failing_final_env recursion_limit GenerateContent 1 0 approved_state)
     = Inr (approved_state\<lparr>generated_content := Some sample_content,
                            final_content := Some sample_content\<rparr>) \<and>
   sample_run failing_final_env = Inr sample_content \<and>
   sample_run high_first_env = Inr (sample_content\<lparr>quality_assessment := sample_score 9\<rparr>)"
proof -
  have ev: "content_generator_agent failing_final_env approved_state
              = Inr (approved_state\<lparr>generated_content := Some sample_content\<rparr>)"
    by code_simp
  have f: "isl (final_llm failing_final_env)"
    by (simp add: failing_final_env_def)
  have q: "quality_assessment sample_content = zero_score"
    by (simp add: sample_content_def)
  have r1: "sample_run failing_final_env = Inr sample_content" by code_simp
  have r2: "sample_run high_first_env
              = Inr (sample_content\<lparr>quality_assessment := sample_score 9\<rparr>)"
    by code_simp
  have l: "recursion_limit = Suc (Suc 23)" by (simp add: recursion_limit_def)
  from final_critic_placeholder [OF ev, of 23 1 0] f l
  have "snd (invoke failing_final_env recursion_limit GenerateContent 1 0 approved_state)
     = Inr (approved_state\<lparr>generated_content := Some sample_content,
                            final_content := Some sample_content\<rparr>)"
    by auto
  with ev f q r1 r2 show ?thesis by simp
qed

section \<open>The entry point\<close>

lemma final_critic_sets_final_content:
  "final_critic_agent e s = Inr fs \<Longrightarrow> final_content fs \<noteq> None"
  by (auto simp: final_critic_agent_def Let_def split: option.splits sum.splits prod.splits)

text \<open>
  C6, as the claim states it: the caller supplies \<open>max_iterations\<close>, and a failure comes
  back as one structured error that names the stage and the cause. The entry point has
  no such parameter: its state always has \<open>max_iterations = 2\<close>. And when the plan
  names an unknown primary persona, what comes back from the run is the bare
  \<open>KeyError\<close> of the dictionary lookup.
\<close>

theorem entry_point_counterexample:
  "sample_run ghost_env = Inl (KeyError ''ghost_user'') \<and>
   max_iterations sample_state = 2"
proof -
  have a: "sample_run ghost_env = Inl (KeyError ''ghost_user'')" by code_simp
  have b: "max_iterations sample_state = 2" by (simp add: sample_state_def initial_state_def)
  from a b show ?thesis by simp
qed

text \<open>
  C6, amended. \<open>generate_reddit_calendar\<close> takes the company info, the personas, the
  subreddits, the target queries, \<open>posts_per_week\<close> and \<open>week_number\<close>; its state starts
  with \<open>refinement_iteration = 0\<close> and \<open>max_iterations = 2\<close>. It returns a bundle exactly
  when the graph run returns a state, and the bundle is that state's \<open>final_content\<close>:
  the posts and comments of one call of content generation. It fails exactly when the
  graph run fails, with the very exception of the graph run, which is never the
  recursion limit.
\<close>

theorem entry_point_outcome:
  "max_iterations (initial_state ci ps srs tqs ppw wn) = 2 \<and>
   refinement_iteration (initial_state ci ps srs tqs ppw wn) = 0 \<and>
   (\<forall>gc. generate_reddit_calendar e ci ps srs tqs ppw wn = Inr gc \<longleftrightarrow>
      (\<exists>fs. snd (invoke e recursion_limit Planner 0 0 (initial_state ci ps srs tqs ppw wn))
              = Inr fs \<and> final_content fs = Some gc)) \<and>
   (\<forall>ex. generate_reddit_calendar e ci ps srs tqs ppw wn = Inl ex \<longleftrightarrow>
      snd (invoke e recursion_limit Planner 0 0 (initial_state ci ps srs tqs ppw wn)) = Inl ex) \<and>
   generate_reddit_calendar e ci ps srs tqs ppw wn \<noteq> Inl GraphRecursionError \<and>
   (\<forall>gc. generate_reddit_calendar e ci ps srs tqs ppw wn = Inr gc \<longrightarrow>
      (\<exists>s1 s2 gc0. personas s1 = ps \<and> content_generator_agent e s1 = Inr s2 \<and>
         generated_content s2 = Some gc0 \<and> posts gc = posts gc0 \<and>
         comments gc = comments gc0))"
proof -
  let ?init = "initial_state ci ps srs tqs ppw wn"
  let ?r = "snd (invoke e recursion_limit Planner 0 0 ?init)"
  have m: "max_iterations ?init = 2 \<and> refinement_iteration ?init = 0"
    by (simp add: initial_state_def)
  have fc: "final_content fs \<noteq> None" if "?r = Inr fs" for fs
  proof -
    from invoke_success_shape [OF _ _ that] obtain s2 where "final_critic_agent e s2 = Inr fs"
      by auto
    then show ?thesis by (rule final_critic_sets_final_content)
  qed
  have ok: "\<forall>gc. generate_reddit_calendar e ci ps srs tqs ppw wn = Inr gc \<longleftrightarrow>
              (\<exists>fs. ?r = Inr fs \<and> final_content fs = Some gc)"
    by (auto simp: generate_reddit_calendar_def split: sum.splits option.splits)
  have err: "\<forall>ex. generate_reddit_calendar e ci ps srs tqs ppw wn = Inl ex \<longleftrightarrow> ?r = Inl ex"
    using fc by (auto simp: generate_reddit_calendar_def split: sum.splits option.splits)
  have "steps_needed Planner ?init \<le> recursion_limit"
    by (simp add: steps_needed_def initial_state_def recursion_limit_def)
  with invoke_terminates [of ?init Planner recursion_limit e 0 0] m
  have "?r \<noteq> Inl GraphRecursionError" by simp
  with err have nr: "generate_reddit_calendar e ci ps srs tqs ppw wn \<noteq> Inl GraphRecursionError"
    by simp
  have sh: "\<forall>gc. generate_reddit_calendar e ci ps srs tqs ppw wn = Inr gc \<longrightarrow>
      (\<exists>s1 s2 gc0. personas s1 = ps \<and> content_generator_agent e s1 = Inr s2 \<and>
         generated_content s2 = Some gc0 \<and> posts gc = posts gc0 \<and>
         comments gc = comments gc0)"
  proof (intro allI impI)
    fix gc assume "generate_reddit_calendar e ci ps srs tqs ppw wn = Inr gc"
    from run_success [OF this] obtain s1 s2 gc0 where
      "personas s1 = ps" "content_generator_agent e s1 = Inr s2" "generated_content s2 = Some gc0"
      "gc = gc0\<lparr>quality_assessment :=
                  (case final_llm e of Inl ex \<Rightarrow> zero_score | Inr (q, raw) \<Rightarrow> q)\<rparr>"
      by blast
    then have "personas s1 = ps \<and> content_generator_agent e s1 = Inr s2 \<and>
         generated_content s2 = Some gc0 \<and> posts gc = posts gc0 \<and>
         comments gc = comments gc0" by simp
    then show "\<exists>s1 s2 gc0. personas s1 = ps \<and> content_generator_agent e s1 = Inr s2 \<and>
         generated_content s2 = Some gc0 \<and> posts gc = posts gc0 \<and>
         comments gc = comments gc0" by blast
  qed
  from m ok err nr sh show ?thesis by blast
qed

theorem entry_point_outcome_witness:
  "max_iterations sample_state = 2 \<and>
   sample_run high_first_env = Inr (sample_content\<lparr>quality_assessment := sample_score 9\<rparr>) \<and>
   (\<exists>fs. snd (invoke high_first_env recursion_limit Planner 0 0 sample_state) = Inr fs \<and>
         final_content fs = Some (sample_content\<lparr>quality_assessment := sample_score 9\<rparr>)) \<and>
   sample_run ghost_env = Inl (KeyError ''ghost_user'') \<and>
   snd (invoke ghost_env recursion_limit Planner 0 0 sample_state)
     = Inl (KeyError ''ghost_user'')"
proof -
  have a: "sample_run high_first_env
             = Inr (sample_content\<lparr>quality_assessment := sample_score 9\<rparr>)" by code_simp
  have b: "sample_run ghost_env = Inl (KeyError ''ghost_user'')" by code_simp
  note t1 = entry_point_outcome [of "''Slideforge''" "[riley, jordan, emily]" "[''r/startups'']"
              "[''pitch deck help'']" 3 1 high_first_env]
  note t2 = entry_point_outcome [of "''Slideforge''" "[riley, jordan, emily]" "[''r/startups'']"
              "[''pitch deck help'']" 3 1 ghost_env]
  from t1 a have c: "\<exists>fs. snd (invoke high_first_env recursion_limit Planner 0 0 sample_state) = Inr fs \<and>
         final_content fs = Some (sample_content\<lparr>quality_assessment := sample_score 9\<rparr>)"
    unfolding sample_run_def sample_state_def by blast
  from t2 b have d: "snd (invoke ghost_env recursion_limit Planner 0 0 sample_state)
     = Inl (KeyError ''ghost_user'')"
    unfolding sample_run_def sample_state_def by blast
  from t1 have m: "max_iterations sample_state = 2" unfolding sample_state_def by blast
  from a b c d m show ?thesis by blast
qed

section \<open>Fault isolation in content generation\<close>

lemma personas_dict_Some: "personas_dict ps u = Some p \<Longrightarrow> username p = u"
proof -
  have gen: "username p = u"
    if "foldl (\<lambda>m p. m(username p \<mapsto> p)) m0 ps u = Some p"
      and "\<forall>v q. m0 v = Some q \<longrightarrow> username q = v" for m0
    using that
  proof (induction ps arbitrary: m0)
    case Nil
    then show ?case by simp
  next
    case (Cons a ps)
    have "\<forall>v q. (m0(username a \<mapsto> a)) v = Some q \<longrightarrow> username q = v"
      using Cons.prems(2) by auto
    from Cons.IH [OF _ this] Cons.prems(1) show ?case by simp
  qed
  show "personas_dict ps u = Some p \<Longrightarrow> username p = u"
    using gen [of Map.empty] by (simp add: personas_dict_def)
qed

lemma make_post_generated:
  "isl (make_post e k primary pp) \<longleftrightarrow> \<not> post_generated e k pp"
  by (auto simp: make_post_def post_generated_def
        split: sum.splits option.splits)

lemma make_comment_generated:
  assumes "make_post e k primary pp = Inr (post, t)"
  shows "isl (make_comment e k j commenter post t parent cs) \<longleftrightarrow> \<not> comment_generated e k pp j"
  using make_post_fields(3) [OF assms]
  by (auto simp: make_comment_def comment_generated_def Let_def
        split: sum.splits option.splits)

lemma comment_loop_generated:
  assumes "\<And>u p. pd u = Some p \<Longrightarrow> username p = u"
      and "make_post e i primary pp = Inr (post, t)"
  shows "\<forall>u \<in> set us. pd u \<noteq> None \<Longrightarrow>
         \<exists>new. fst (comment_loop e pd i post t j us cs) = cs @ new \<and>
               (\<forall>c \<in> set new. c_post_id c = post_id post) \<and>
               map c_username new
                 = map snd (filter (\<lambda>(m, u). comment_generated e i pp m) (enumerate j us))"
proof (induction us arbitrary: j cs)
  case Nil
  then show ?case by simp
next
  case (Cons u us)
  from Cons.prems obtain commenter where c: "pd u = Some commenter" by auto
  from Cons.prems have rest: "\<forall>u \<in> set us. pd u \<noteq> None" by simp
  let ?mc = "make_comment e i j commenter post t (choose_parent e i j post cs) cs"
  show ?case
  proof (cases ?mc)
    case (Inl ex)
    then have ng: "\<not> comment_generated e i pp j"
      using make_comment_generated [OF assms(2), of j commenter "choose_parent e i j post cs" cs]
      by simp
    from Cons.IH [OF rest, of "Suc j" cs] obtain new where
      "fst (comment_loop e pd i post t (Suc j) us cs) = cs @ new"
      "\<forall>c \<in> set new. c_post_id c = post_id post"
      "map c_username new
         = map snd (filter (\<lambda>(m, u). comment_generated e i pp m) (enumerate (Suc j) us))"
      by blast
    with c Inl ng show ?thesis by simp
  next
    case (Inr cm)
    then have g: "comment_generated e i pp j"
      using make_comment_generated [OF assms(2), of j commenter "choose_parent e i j post cs" cs]
      by auto
    note f = make_comment_fields [OF Inr]
    from assms(1) [OF c] f(4) have un: "c_username cm = u" by simp
    from Cons.IH [OF rest, of "Suc j" "cs @ [cm]"] obtain new where n:
      "fst (comment_loop e pd i post t (Suc j) us (cs @ [cm])) = (cs @ [cm]) @ new"
      "\<forall>c \<in> set new. c_post_id c = post_id post"
      "map c_username new
         = map snd (filter (\<lambda>(m, u). comment_generated e i pp m) (enumerate (Suc j) us))"
      by blast
    have "fst (comment_loop e pd i post t j (u # us) cs) = cs @ (cm # new)"
      using c Inr n(1) by simp
    moreover have "\<forall>c \<in> set (cm # new). c_post_id c = post_id post"
      using n(2) f(2) by simp
    moreover have "map c_username (cm # new)
         = map snd (filter (\<lambda>(m, u). comment_generated e i pp m) (enumerate j (u # us)))"
      using n(3) un g by simp
    ultimately show ?thesis by blast
  qed
qed


lemma post_label_inj: "post_label a = post_label b \<Longrightarrow> a = b"
  using str_nat_inj [of "a + 1" "b + 1"] by (simp add: post_label_def)

lemma comments_on_none:
  "\<forall>c \<in> set cs. c_post_id c \<noteq> pid \<Longrightarrow> comments_on pid cs = []"
  by (simp add: comments_on_def)

lemma comments_on_all:
  "\<forall>c \<in> set cs. c_post_id c = pid \<Longrightarrow> comments_on pid cs = cs"
  by (simp add: comments_on_def)

lemma comments_on_append: "comments_on pid (xs @ ys) = comments_on pid xs @ comments_on pid ys"
  by (simp add: comments_on_def)

lemma post_loop_generated:
  assumes key: "\<And>u p. pd u = Some p \<Longrightarrow> username p = u"
  shows "\<forall>pp \<in> set items. pd (primary_persona pp) \<noteq> None \<and>
                          (\<forall>u \<in> set (commenting_personas pp). pd u \<noteq> None) \<Longrightarrow>
         \<exists>ps2 cs2. post_loop e pd i items ps cs = Inr (ps @ ps2, cs @ cs2) \<and>
            map post_id ps2
              = map (\<lambda>(k, pp). post_label k)
                  (filter (\<lambda>(k, pp). post_generated e k pp) (enumerate i items)) \<and>
            (\<forall>c \<in> set cs2. \<exists>k \<ge> i. c_post_id c = post_label k) \<and>
            (\<forall>m < length items.
               map c_username (comments_on (post_label (i + m)) cs2)
                 = expected_commenters e (i + m) (items ! m))"
proof (induction items arbitrary: i ps cs)
  case Nil
  then show ?case by simp
next
  case (Cons pp rest)
  from Cons.prems obtain primary where pr: "pd (primary_persona pp) = Some primary" by auto
  from Cons.prems have kn: "\<forall>u \<in> set (commenting_personas pp). pd u \<noteq> None" by simp
  from Cons.prems have restk: "\<forall>pp \<in> set rest. pd (primary_persona pp) \<noteq> None \<and>
                          (\<forall>u \<in> set (commenting_personas pp). pd u \<noteq> None)" by simp
  show ?case
  proof (cases "make_post e i primary pp")
    case (Inl ex)
    then have ng: "\<not> post_generated e i pp"
      using make_post_generated [of e i primary pp] by simp
    from Cons.IH [OF restk, of "Suc i" ps cs] obtain ps2 cs2 where
      run: "post_loop e pd (Suc i) rest ps cs = Inr (ps @ ps2, cs @ cs2)" and
      ids: "map post_id ps2 = map (\<lambda>(k, pp). post_label k)
              (filter (\<lambda>(k, pp). post_generated e k pp) (enumerate (Suc i) rest))" and
      low: "\<forall>c \<in> set cs2. \<exists>k \<ge> Suc i. c_post_id c = post_label k" and
      per: "\<forall>m < length rest. map c_username (comments_on (post_label (Suc i + m)) cs2)
              = expected_commenters e (Suc i + m) (rest ! m)"
      by blast
    have run': "post_loop e pd i (pp # rest) ps cs = Inr (ps @ ps2, cs @ cs2)"
      using pr Inl run by simp
    have ids': "map post_id ps2 = map (\<lambda>(k, pp). post_label k)
              (filter (\<lambda>(k, pp). post_generated e k pp) (enumerate i (pp # rest)))"
      using ids ng by simp
    have low': "\<forall>c \<in> set cs2. \<exists>k \<ge> i. c_post_id c = post_label k"
      using low by (meson Suc_leD)
    have none: "\<forall>c \<in> set cs2. c_post_id c \<noteq> post_label i"
    proof
      fix c assume "c \<in> set cs2"
      with low obtain k where "Suc i \<le> k" "c_post_id c = post_label k" by blast
      then show "c_post_id c \<noteq> post_label i" using post_label_inj [of k i] by auto
    qed
    have per': "\<forall>m < length (pp # rest).
               map c_username (comments_on (post_label (i + m)) cs2)
                 = expected_commenters e (i + m) ((pp # rest) ! m)"
    proof (intro allI impI)
      fix m assume m: "m < length (pp # rest)"
      show "map c_username (comments_on (post_label (i + m)) cs2)
              = expected_commenters e (i + m) ((pp # rest) ! m)"
      proof (cases m)
        case 0
        with comments_on_none [OF none] ng show ?thesis
          by (simp add: expected_commenters_def)
      next
        case (Suc m')
        with m per show ?thesis by simp
      qed
    qed
    from run' ids' low' per' show ?thesis by blast
  next
    case (Inr r)
    obtain post t where r: "r = (post, t)" by (cases r)
    with Inr have mk: "make_post e i primary pp = Inr (post, t)" by simp
    then have g: "post_generated e i pp"
      using make_post_generated [of e i primary pp] by auto
    have pid: "post_id post = post_label i"
      using make_post_fields(1) [OF mk] by (simp add: post_label_def)
    from comment_loop_generated [OF key mk kn, of 0 cs] obtain new where
      cl: "fst (comment_loop e pd i post t 0 (commenting_personas pp) cs) = cs @ new" and
      np: "\<forall>c \<in> set new. c_post_id c = post_id post" and
      nu: "map c_username new = map snd (filter (\<lambda>(m, u). comment_generated e i pp m)
                                            (enumerate 0 (commenting_personas pp)))"
      by blast
    from Cons.IH [OF restk, of "Suc i" "ps @ [post]" "cs @ new"] obtain ps2 cs2 where
      run: "post_loop e pd (Suc i) rest (ps @ [post]) (cs @ new)
              = Inr ((ps @ [post]) @ ps2, (cs @ new) @ cs2)" and
      ids: "map post_id ps2 = map (\<lambda>(k, pp). post_label k)
              (filter (\<lambda>(k, pp). post_generated e k pp) (enumerate (Suc i) rest))" and
      low: "\<forall>c \<in> set cs2. \<exists>k \<ge> Suc i. c_post_id c = post_label k" and
      per: "\<forall>m < length rest. map c_username (comments_on (post_label (Suc i + m)) cs2)
              = expected_commenters e (Suc i + m) (rest ! m)"
      by blast
    have run': "post_loop e pd i (pp # rest) ps cs = Inr (ps @ (post # ps2), cs @ (new @ cs2))"
      using pr mk cl run by simp
    have ids': "map post_id (post # ps2) = map (\<lambda>(k, pp). post_label k)
              (filter (\<lambda>(k, pp). post_generated e k pp) (enumerate i (pp # rest)))"
      using ids g pid by simp
    have low': "\<forall>c \<in> set (new @ cs2). \<exists>k \<ge> i. c_post_id c = post_label k"
    proof
      fix c assume "c \<in> set (new @ cs2)"
      then consider "c \<in> set new" | "c \<in> set cs2" by auto
      then show "\<exists>k \<ge> i. c_post_id c = post_label k"
      proof cases
        case 1
        with np pid show ?thesis by auto
      next
        case 2
        with low show ?thesis by (meson Suc_leD)
      qed
    qed
    have none: "\<forall>c \<in> set cs2. c_post_id c \<noteq> post_label i"
    proof
      fix c assume "c \<in> set cs2"
      with low obtain k where "Suc i \<le> k" "c_post_id c = post_label k" by blast
      then show "c_post_id c \<noteq> post_label i" using post_label_inj [of k i] by auto
    qed
    have per': "\<forall>m < length (pp # rest).
               map c_username (comments_on (post_label (i + m)) (new @ cs2))
                 = expected_commenters e (i + m) ((pp # rest) ! m)"
    proof (intro allI impI)
      fix m assume m: "m < length (pp # rest)"
      show "map c_username (comments_on (post_label (i + m)) (new @ cs2))
              = expected_commenters e (i + m) ((pp # rest) ! m)"
      proof (cases m)
        case 0
        from np pid have "\<forall>c \<in> set new. c_post_id c = post_label i" by simp
        from comments_on_all [OF this] comments_on_none [OF none] nu g 0 show ?thesis
          by (simp add: comments_on_append expected_commenters_def)
      next
        case (Suc m')
        have "\<forall>c \<in> set new. c_post_id c \<noteq> post_label (Suc i + m')"
          using np pid post_label_inj [of i "Suc i + m'"] by auto
        from comments_on_none [OF this] Suc m per show ?thesis
          by (simp add: comments_on_append)
      qed
    qed
    from run' ids' low' per' show ?thesis by blast
  qed
qed


lemma enumerate_member: "k < length xs \<Longrightarrow> (k, xs ! k) \<in> set (enumerate 0 xs)"
  by (auto simp: in_set_enumerate_eq)

lemma content_generation_characterised:
  assumes "strategic_plan s = Some plan"
      and "\<forall>pp \<in> set (wp_posts plan).
             primary_persona pp \<in> username ` set (personas s) \<and>
             set (commenting_personas pp) \<subseteq> username ` set (personas s)"
  shows "\<exists>s' gc. content_generator_agent e s = Inr s' \<and> generated_content s' = Some gc \<and>
           map post_id (posts gc) = expected_posts e (wp_posts plan) \<and>
           (\<forall>k < length (wp_posts plan).
              map c_username (comments_on (post_label k) (comments gc))
                = expected_commenters e k (wp_posts plan ! k)) \<and>
           (\<forall>k < length (wp_posts plan). post_generated e k (wp_posts plan ! k) \<longrightarrow>
              post_label k \<in> set (map post_id (posts gc))) \<and>
           (\<forall>k < length (wp_posts plan). \<not> post_generated e k (wp_posts plan ! k) \<longrightarrow>
              post_label k \<notin> set (map post_id (posts gc)) \<and>
              comments_on (post_label k) (comments gc) = [])"
proof -
  let ?pd = "personas_dict (personas s)"
  let ?items = "wp_posts plan"
  have known: "\<forall>pp \<in> set ?items. ?pd (primary_persona pp) \<noteq> None \<and>
                 (\<forall>u \<in> set (commenting_personas pp). ?pd u \<noteq> None)"
    using assms(2) by (auto simp: personas_dict_None)
  have key: "username p = u" if "?pd u = Some p" for u p
    using that by (rule personas_dict_Some)
  from post_loop_generated [where pd = ?pd and items = ?items and e = e and i = 0
                              and ps = "[]" and cs = "[]", OF key known]
  obtain ps2 cs2 where
    run: "post_loop e ?pd 0 ?items [] [] = Inr (ps2, cs2)" and
    ids: "map post_id ps2 = expected_posts e ?items" and
    per: "\<forall>m < length ?items. map c_username (comments_on (post_label m) cs2)
            = expected_commenters e m (?items ! m)"
    by (auto simp: expected_posts_def)
  let ?gc = "\<lparr>posts = ps2, comments = cs2, quality_assessment = zero_score\<rparr>"
  let ?s' = "s\<lparr>generated_content := Some ?gc\<rparr>"
  have a: "content_generator_agent e s = Inr ?s'"
    using assms(1) run by (simp add: content_generator_agent_def)
  have yes: "\<forall>k < length ?items. post_generated e k (?items ! k) \<longrightarrow>
               post_label k \<in> set (map post_id ps2)"
  proof (intro allI impI)
    fix k assume "k < length ?items" "post_generated e k (?items ! k)"
    with enumerate_member [of k ?items]
    have "(k, ?items ! k) \<in> set (filter (\<lambda>(k, pp). post_generated e k pp) (enumerate 0 ?items))"
      by simp
    then have "post_label k \<in> set (expected_posts e ?items)"
      unfolding expected_posts_def by force
    with ids show "post_label k \<in> set (map post_id ps2)" by simp
  qed
  have no: "\<forall>k < length ?items. \<not> post_generated e k (?items ! k) \<longrightarrow>
              post_label k \<notin> set (map post_id ps2) \<and> comments_on (post_label k) cs2 = []"
  proof (intro allI impI)
    fix k assume k: "k < length ?items" and ng: "\<not> post_generated e k (?items ! k)"
    have "post_label k \<notin> set (expected_posts e ?items)"
    proof
      assume "post_label k \<in> set (expected_posts e ?items)"
      then obtain k' pp' where m: "(k', pp') \<in> set (enumerate 0 ?items)"
          "post_generated e k' pp'" "post_label k' = post_label k"
        unfolding expected_posts_def by auto
      from post_label_inj [OF m(3)] m(1) have "pp' = ?items ! k" "k' = k"
        by (auto simp: in_set_enumerate_eq)
      with m(2) ng show False by simp
    qed
    moreover from per k ng have "map c_username (comments_on (post_label k) cs2) = []"
      by (simp add: expected_commenters_def)
    ultimately show "post_label k \<notin> set (map post_id ps2) \<and>
                     comments_on (post_label k) cs2 = []"
      using ids by simp
  qed
  have "generated_content ?s' = Some ?gc \<and>
        map post_id (posts ?gc) = expected_posts e ?items \<and>
        (\<forall>k < length ?items. map c_username (comments_on (post_label k) (comments ?gc))
            = expected_commenters e k (?items ! k)) \<and>
        (\<forall>k < length ?items. post_generated e k (?items ! k) \<longrightarrow>
            post_label k \<in> set (map post_id (posts ?gc))) \<and>
        (\<forall>k < length ?items. \<not> post_generated e k (?items ! k) \<longrightarrow>
            post_label k \<notin> set (map post_id (posts ?gc)) \<and>
            comments_on (post_label k) (comments ?gc) = [])"
    using ids per yes no by simp
  with a show ?thesis by blast
qed

lemma partial_generation:
  "content_generator_agent partial_env approved_state
     = Inr (approved_state\<lparr>generated_content := Some partial_content\<rparr>)"
  by code_simp

text \<open>
  C3. When the generation call for a comment fails, the comment loop goes on with the
  next commenter on the same lists of posts and comments; when the generation call for
  a post fails, the loop over the plan goes on with the next item on the same lists, so
  that neither the post nor any of the item's comments is made. For a plan whose
  personas are all in the roster the stage returns, and its content has exactly the
  posts of the items whose post was generated, in plan order, and on each of them
  exactly the comments of the commenters whose comment was generated, in order; an item
  whose post failed has no post and no comment.
\<close>

theorem content_generation_fault_isolation:
  "(pd u = Some commenter \<and> isl (comment_llm e i j) \<longrightarrow>
      comment_loop e pd i post t j (u # us) cs = comment_loop e pd i post t (Suc j) us cs) \<and>
   (pd (primary_persona pp) = Some primary \<and> isl (post_llm e i) \<longrightarrow>
      post_loop e pd i (pp # rest) ps cs = post_loop e pd (Suc i) rest ps cs) \<and>
   (strategic_plan s = Some plan \<and>
    (\<forall>pp \<in> set (wp_posts plan).
       primary_persona pp \<in> username ` set (personas s) \<and>
       set (commenting_personas pp) \<subseteq> username ` set (personas s)) \<longrightarrow>
    (\<exists>s' gc. content_generator_agent e s = Inr s' \<and> generated_content s' = Some gc \<and>
       map post_id (posts gc) = expected_posts e (wp_posts plan) \<and>
       (\<forall>k < length (wp_posts plan).
          map c_username (comments_on (post_label k) (comments gc))
            = expected_commenters e k (wp_posts plan ! k)) \<and>
       (\<forall>k < length (wp_posts plan). post_generated e k (wp_posts plan ! k) \<longrightarrow>
          post_label k \<in> set (map post_id (posts gc))) \<and>
       (\<forall>k < length (wp_posts plan). \<not> post_generated e k (wp_posts plan ! k) \<longrightarrow>
          post_label k \<notin> set (map post_id (posts gc)) \<and>
          comments_on (post_label k) (comments gc) = [])))"
proof -
  have a: "pd u = Some commenter \<and> isl (comment_llm e i j) \<longrightarrow>
      comment_loop e pd i post t j (u # us) cs = comment_loop e pd i post t (Suc j) us cs"
    by (auto simp: make_comment_def split: sum.splits)
  have b: "pd (primary_persona pp) = Some primary \<and> isl (post_llm e i) \<longrightarrow>
      post_loop e pd i (pp # rest) ps cs = post_loop e pd (Suc i) rest ps cs"
    by (auto simp: make_post_def split: sum.splits)
  have c: "strategic_plan s = Some plan \<and>
    (\<forall>pp \<in> set (wp_posts plan).
       primary_persona pp \<in> username ` set (personas s) \<and>
       set (commenting_personas pp) \<subseteq> username ` set (personas s)) \<longrightarrow>
    (\<exists>s' gc. content_generator_agent e s = Inr s' \<and> generated_content s' = Some gc \<and>
       map post_id (posts gc) = expected_posts e (wp_posts plan) \<and>
       (\<forall>k < length (wp_posts plan).
          map c_username (comments_on (post_label k) (comments gc))
            = expected_commenters e k (wp_posts plan ! k)) \<and>
       (\<forall>k < length (wp_posts plan). post_generated e k (wp_posts plan ! k) \<longrightarrow>
          post_label k \<in> set (map post_id (posts gc))) \<and>
       (\<forall>k < length (wp_posts plan). \<not> post_generated e k (wp_posts plan ! k) \<longrightarrow>
          post_label k \<notin> set (map post_id (posts gc)) \<and>
          comments_on (post_label k) (comments gc) = []))"
    using content_generation_characterised [of s plan e] by blast
  show ?thesis by (rule conjI [OF a conjI [OF b c]])
qed

theorem content_generation_fault_isolation_witness:
  "strategic_plan approved_state = Some sample_plan \<and>
   isl (post_llm partial_env 1) \<and> isl (comment_llm partial_env 0 0) \<and>
   content_generator_agent partial_env approved_state
     = Inr (approved_state\<lparr>generated_content := Some partial_content\<rparr>) \<and>
   map post_id (posts partial_content) = expected_posts partial_env (wp_posts sample_plan) \<and>
   expected_posts partial_env (wp_posts sample_plan) = [''P1'', ''P3''] \<and>
   comments_on ''P2'' (comments partial_content) = [] \<and>
   commenting_personas (wp_posts sample_plan ! 0) = [''jordan_consults'', ''emily_econ''] \<and>
   map c_username (comments_on ''P1'' (comments partial_content)) = [''emily_econ''] \<and>
   personas_dict [riley, jordan, emily] ''jordan_consults'' = Some jordan \<and>
   comment_loop partial_env (personas_dict [riley, jordan, emily]) 0
       (sample_post ''P1'' ''r/startups'' ''riley_ops'' 1064529195) 1064529195 0
       [''jordan_consults'', ''emily_econ''] []
     = comment_loop partial_env (personas_dict [riley, jordan, emily]) 0
         (sample_post ''P1'' ''r/startups'' ''riley_ops'' 1064529195) 1064529195 1
         [''emily_econ''] [] \<and>
   post_loop partial_env (personas_dict [riley, jordan, emily]) 1
       (drop 1 (wp_posts sample_plan)) [] []
     = post_loop partial_env (personas_dict [riley, jordan, emily]) 2
         (drop 2 (wp_posts sample_plan)) [] []"
proof -
  let ?pd = "personas_dict [riley, jordan, emily]"
  let ?p1 = "sample_post ''P1'' ''r/startups'' ''riley_ops'' 1064529195"
  have h1: "strategic_plan approved_state = Some sample_plan"
    by (simp add: approved_state_def)
  have h2: "\<forall>pp \<in> set (wp_posts sample_plan).
             primary_persona pp \<in> username ` set (personas approved_state) \<and>
             set (commenting_personas pp) \<subseteq> username ` set (personas approved_state)"
    by code_simp
  have f: "isl (post_llm partial_env 1) \<and> isl (comment_llm partial_env 0 0)"
    by (simp add: partial_env_def)
  have v: "expected_posts partial_env (wp_posts sample_plan) = [''P1'', ''P3''] \<and>
           comments_on ''P2'' (comments partial_content) = [] \<and>
           commenting_personas (wp_posts sample_plan ! 0) = [''jordan_consults'', ''emily_econ''] \<and>
           map c_username (comments_on ''P1'' (comments partial_content)) = [''emily_econ'']"
    by code_simp
  have d1: "?pd ''jordan_consults'' = Some jordan" by code_simp
  have d2: "?pd (primary_persona (sample_item ''r/consulting'' ''jordan_consults''
                    [''riley_ops''] ''2025-01-08'' ''14:30'')) = Some jordan" by code_simp
  have dr: "drop 1 (wp_posts sample_plan)
              = sample_item ''r/consulting'' ''jordan_consults'' [''riley_ops'']
                  ''2025-01-08'' ''14:30'' # drop 2 (wp_posts sample_plan)"
    by (simp add: sample_plan_def)
  note t = content_generation_fault_isolation
             [where s = approved_state and plan = sample_plan and e = partial_env
                and pd = ?pd and u = "''jordan_consults''" and commenter = jordan
                and i = 0 and j = 0 and post = ?p1 and t = 1064529195
                and us = "[''emily_econ'']" and cs = "[]"]
  from t h1 h2 partial_generation
  have e1: "map post_id (posts partial_content)
              = expected_posts partial_env (wp_posts sample_plan)"
    by auto
  from t d1 f have e2: "comment_loop partial_env ?pd 0 ?p1 1064529195 0
                          [''jordan_consults'', ''emily_econ''] []
                        = comment_loop partial_env ?pd 0 ?p1 1064529195 1 [''emily_econ''] []"
    by simp
  from content_generation_fault_isolation
         [where pd = ?pd and primary = jordan and e = partial_env and i = 1
            and pp = "sample_item ''r/consulting'' ''jordan_consults'' [''riley_ops'']
                        ''2025-01-08'' ''14:30''"
            and rest = "drop 2 (wp_posts sample_plan)" and ps = "[]" and cs = "[]"] d2 f dr
  have e3: "post_loop partial_env ?pd 1 (drop 1 (wp_posts sample_plan)) [] []
              = post_loop partial_env ?pd 2 (drop 2 (wp_posts sample_plan)) [] []"
    by (simp add: numeral_2_eq_2)
  from h1 f v partial_generation d1 e1 e2 e3 show ?thesis by simp
qed

end
